theory Spec2Isabelle
  imports Complex_Main "HOL-Library.Word"
begin

section \<open>Python values and exceptions\<close>

text \<open>
  The script \<^verbatim>\<open>PLC40_InformationStickers_AutoGenerate.py\<close> drives Excel and PowerPoint
  through COM. Every exception the modelled code can raise is a value of \<open>py_error\<close>;
  a fallible computation returns \<open>py_error + 'a\<close> with \<open>Inl\<close> for the raised exception.
  An exception raised by the COM layer carries the text \<open>str(e)\<close> of the exception.
\<close>

datatype py_error =
    ComError string
  | RuntimeError string
  | IndexError
  | OverflowError
  | ValueError
  | ZeroDivisionError

text \<open>
  Python list indexing \<^verbatim>\<open>xs[i]\<close>: a negative index counts from the end, an index
  outside \<open>-len .. len-1\<close> raises \<^verbatim>\<open>IndexError\<close>.
\<close>

definition py_index :: "'a list \<Rightarrow> int \<Rightarrow> py_error + 'a" where
  "py_index xs i =
     (if 0 \<le> i \<and> i < int (length xs) then Inr (xs ! nat i)
      else if i < 0 \<and> - int (length xs) \<le> i then Inr (xs ! nat (int (length xs) + i))
      else Inl IndexError)"

section \<open>Configuration\<close>

text \<open>
  The module constants of the script. Lengths are in points; the decimal literals of the
  source are kept as exact rationals.
\<close>

definition stickers_per_slide :: int where
  "stickers_per_slide = 6"

definition total_stickers :: int where
  "total_stickers = 120"

definition FORCE_COORDS :: bool where
  "FORCE_COORDS = False"

definition BASE_LEFTS :: "rat list" where
  "BASE_LEFTS = [2, 507]"

definition BASE_TOPS :: "rat list" where
  "BASE_TOPS = [63, 245, 420]"

definition POINT_SIZE :: "rat \<times> rat" where
  "POINT_SIZE = (45043 / 100, 3402 / 100)"

definition LOTO_SIZE :: "rat \<times> rat" where
  "LOTO_SIZE = (3203 / 100, 4110 / 100)"

definition CABINET_SIZE :: "rat \<times> rat" where
  "CABINET_SIZE = (13412 / 100, 2183 / 100)"

definition POINT_FONT_SIZE :: rat where
  "POINT_FONT_SIZE = 20"

definition LOTO_FONT_SIZE :: rat where
  "LOTO_FONT_SIZE = 22"

definition CABINET_FONT_SIZE :: rat where
  "CABINET_FONT_SIZE = 10"

section \<open>Grid coordinates\<close>

text \<open>
  \<^verbatim>\<open>coords_for_position(pos_index, size)\<close>: column and row of the 2 x 3 grid from the
  1-based position (Python's \<^verbatim>\<open>%\<close> and \<^verbatim>\<open>//\<close> are floor modulus and floor division,
  as \<open>mod\<close> and \<open>div\<close> on \<open>int\<close>), then two list reads that may raise.
\<close>

definition coords_for_position ::
  "int \<Rightarrow> rat \<times> rat \<Rightarrow> py_error + (rat \<times> rat \<times> rat \<times> rat)" where
  "coords_for_position pos_index sz =
     (let idx = pos_index - 1;
          col = idx mod 2;
          row = idx div 2
      in case py_index BASE_LEFTS col of
           Inl e \<Rightarrow> Inl e
         | Inr left_x \<Rightarrow>
             (case py_index BASE_TOPS row of
                Inl e \<Rightarrow> Inl e
              | Inr top_y \<Rightarrow>
                  (case sz of (width, height) \<Rightarrow> Inr (left_x, top_y, width, height))))"

section \<open>Decimal text of integers and substring test\<close>

text \<open>
  \<^verbatim>\<open>str(i)\<close> for a Python \<^verbatim>\<open>int\<close>, and the test \<^verbatim>\<open>needle in haystack\<close> on strings.
  Strings are lists of 8-bit characters (code points below 256).
\<close>

definition digit_char :: "nat \<Rightarrow> char" where
  "digit_char d = ''0123456789'' ! d"

fun str_nat :: "nat \<Rightarrow> string" where
  "str_nat n = (if n < 10 then [digit_char n] else str_nat (n div 10) @ [digit_char (n mod 10)])"

declare str_nat.simps [simp del]

definition py_str_int :: "int \<Rightarrow> string" where
  "py_str_int i = (if i < 0 then CHR ''-'' # str_nat (nat (- i)) else str_nat (nat i))"

fun str_contains :: "string \<Rightarrow> string \<Rightarrow> bool" where
  "str_contains needle [] = (needle = [])"
| "str_contains needle (c # cs) =
     (take (length needle) (c # cs) = needle \<or> str_contains needle cs)"

section \<open>IEEE doubles\<close>

text \<open>
  A Python \<^verbatim>\<open>float\<close> is an IEEE 754 binary64 value: a sign bit, an 11-bit biased
  exponent and a 52-bit fraction. Exponent 2047 is an infinity (fraction 0) or a NaN;
  exponent 0 is a zero or a subnormal number.
\<close>

datatype pyfloat = PyFloat (sign_bit: bool) (exp_bits: "11 word") (frac_bits: "52 word")

definition pow2 :: "int \<Rightarrow> rat" where
  "pow2 e = (if 0 \<le> e then 2 ^ nat e else 1 / 2 ^ nat (- e))"

definition is_nan :: "pyfloat \<Rightarrow> bool" where
  "is_nan x = (uint (exp_bits x) = 2047 \<and> uint (frac_bits x) \<noteq> 0)"

definition is_inf :: "pyfloat \<Rightarrow> bool" where
  "is_inf x = (uint (exp_bits x) = 2047 \<and> uint (frac_bits x) = 0)"

definition is_finite :: "pyfloat \<Rightarrow> bool" where
  "is_finite x = (uint (exp_bits x) < 2047)"

definition magnitude :: "pyfloat \<Rightarrow> rat" where
  "magnitude x =
     (if uint (exp_bits x) = 0 then of_int (uint (frac_bits x)) * pow2 (- 1074)
      else of_int (2 ^ 52 + uint (frac_bits x)) * pow2 (uint (exp_bits x) - 1075))"

definition float_value :: "pyfloat \<Rightarrow> rat" where
  "float_value x = (if sign_bit x then - magnitude x else magnitude x)"

text \<open>Rounding to the nearest integer, ties to the even one.\<close>

definition round_half_even :: "rat \<Rightarrow> int" where
  "round_half_even q =
     (let f = \<lfloor>q\<rfloor>; r = q - of_int f
      in if r < 1 / 2 then f else if 1 / 2 < r then f + 1 else if even f then f else f + 1)"

function log2_up :: "rat \<Rightarrow> nat" where
  "log2_up q = (if q < 2 then 0 else Suc (log2_up (q / 2)))"
  by pat_completeness auto
termination
proof (relation "measure (\<lambda>q. nat \<lfloor>q\<rfloor>)")
  show "wf (measure (\<lambda>q::rat. nat \<lfloor>q\<rfloor>))" by simp
next
  fix q :: rat
  assume "\<not> q < 2"
  then have "\<lfloor>q / 2\<rfloor> < \<lfloor>q\<rfloor>" "0 < \<lfloor>q\<rfloor>"
    by linarith+
  then show "(q / 2, q) \<in> measure (\<lambda>q. nat \<lfloor>q\<rfloor>)"
    by simp
qed

function log2_down :: "rat \<Rightarrow> nat" where
  "log2_down q = (if q \<le> 0 \<or> 1 \<le> q then 0 else Suc (log2_down (2 * q)))"
  by pat_completeness auto
termination
proof (relation "measure (\<lambda>q. nat \<lfloor>1 / q\<rfloor>)")
  show "wf (measure (\<lambda>q::rat. nat \<lfloor>1 / q\<rfloor>))" by simp
next
  fix q :: rat
  assume a: "\<not> (q \<le> 0 \<or> 1 \<le> q)"
  define y where "y = 1 / q"
  from a have y: "1 < y" by (simp add: y_def)
  have half: "1 / (2 * q) = y / 2" by (simp add: y_def)
  have "\<lfloor>y / 2\<rfloor> < \<lfloor>y\<rfloor>"
  proof (cases "y < 2")
    case True
    then have "\<lfloor>y / 2\<rfloor> = 0" using y by (intro floor_unique) simp_all
    moreover have "\<lfloor>y\<rfloor> = 1" using y True by (intro floor_unique) simp_all
    ultimately show ?thesis by simp
  next
    case False
    then show ?thesis by linarith
  qed
  moreover have "0 < \<lfloor>y\<rfloor>" using y by linarith
  ultimately have "\<lfloor>1 / (2 * q)\<rfloor> < \<lfloor>1 / q\<rfloor>" "0 < \<lfloor>1 / q\<rfloor>"
    by (simp_all add: half) (simp_all add: y_def)
  then show "(2 * q, q) \<in> measure (\<lambda>q. nat \<lfloor>1 / q\<rfloor>)"
    by simp
qed

declare log2_up.simps [simp del] log2_down.simps [simp del]

text \<open>
  \<open>floor_log2 q\<close> is the exponent \<open>e\<close> with \<open>2^e \<le> q < 2^(e+1)\<close> for a positive \<open>q\<close>,
  found by halving or doubling.
\<close>

definition floor_log2 :: "rat \<Rightarrow> int" where
  "floor_log2 q = (if 1 \<le> q then int (log2_up q) else - int (log2_down q))"

text \<open>
  The correctly rounded conversion of a sign and a non-negative rational magnitude to a
  double (round to nearest, ties to even), as C's \<^verbatim>\<open>strtod\<close> computes it for a decimal
  string. A magnitude of at least \<open>2^1024 - 2^970\<close> rounds to infinity; the second
  component reports that overflow (\<^verbatim>\<open>ERANGE\<close>).
\<close>

definition overflow_threshold :: rat where
  "overflow_threshold = 2 ^ 1024 - 2 ^ 970"

definition strtod :: "bool \<Rightarrow> rat \<Rightarrow> pyfloat \<times> bool" where
  "strtod neg q =
     (if q = 0 then (PyFloat neg 0 0, False)
      else if overflow_threshold \<le> q then (PyFloat neg 2047 0, True)
      else
        let u = max (floor_log2 q - 52) (- 1074);
            m0 = round_half_even (q / pow2 u);
            (m, u') = (if m0 = 2 ^ 53 then (2 ^ 52, u + 1) else (m0, u))
        in if m < 2 ^ 52 then (PyFloat neg 0 (of_int m), False)
           else (PyFloat neg (of_int (u' + 1075)) (of_int (m - 2 ^ 52)), False))"

text \<open>A float literal of the source text, such as \<^verbatim>\<open>4.567\<close>.\<close>

definition float_lit :: "rat \<Rightarrow> pyfloat" where
  "float_lit q = fst (strtod (q < 0) \<bar>q\<bar>)"

text \<open>
  \<open>floor_log10 q\<close> is the decimal exponent \<open>e\<close> with \<open>10^e \<le> q < 10^(e+1)\<close> for a positive
  \<open>q\<close>.
\<close>

definition pow10 :: "int \<Rightarrow> rat" where
  "pow10 e = (if 0 \<le> e then 10 ^ nat e else 1 / 10 ^ nat (- e))"

function log10_up :: "rat \<Rightarrow> nat" where
  "log10_up q = (if q < 10 then 0 else Suc (log10_up (q / 10)))"
  by pat_completeness auto
termination
proof (relation "measure (\<lambda>q. nat \<lfloor>q\<rfloor>)")
  show "wf (measure (\<lambda>q::rat. nat \<lfloor>q\<rfloor>))" by simp
next
  fix q :: rat
  assume "\<not> q < 10"
  then have "\<lfloor>q / 10\<rfloor> < \<lfloor>q\<rfloor>" "0 < \<lfloor>q\<rfloor>"
    by linarith+
  then show "(q / 10, q) \<in> measure (\<lambda>q. nat \<lfloor>q\<rfloor>)"
    by simp
qed

function log10_down :: "rat \<Rightarrow> nat" where
  "log10_down q = (if q \<le> 0 \<or> 1 \<le> q then 0 else Suc (log10_down (10 * q)))"
  by pat_completeness auto
termination
proof (relation "measure (\<lambda>q. nat \<lfloor>1 / q\<rfloor>)")
  show "wf (measure (\<lambda>q::rat. nat \<lfloor>1 / q\<rfloor>))" by simp
next
  fix q :: rat
  assume a: "\<not> (q \<le> 0 \<or> 1 \<le> q)"
  define y where "y = 1 / q"
  from a have y: "1 < y" by (simp add: y_def)
  have tenth: "1 / (10 * q) = y / 10" by (simp add: y_def)
  have "\<lfloor>y / 10\<rfloor> < \<lfloor>y\<rfloor>"
  proof (cases "y < 10")
    case True
    then have "\<lfloor>y / 10\<rfloor> = 0" using y by (intro floor_unique) simp_all
    moreover have "0 < \<lfloor>y\<rfloor>" using y by linarith
    ultimately show ?thesis by simp
  next
    case False
    then show ?thesis by linarith
  qed
  moreover have "0 < \<lfloor>y\<rfloor>" using y by linarith
  ultimately have "\<lfloor>1 / (10 * q)\<rfloor> < \<lfloor>1 / q\<rfloor>" "0 < \<lfloor>1 / q\<rfloor>"
    by (simp_all add: tenth) (simp_all add: y_def)
  then show "(10 * q, q) \<in> measure (\<lambda>q. nat \<lfloor>1 / q\<rfloor>)"
    by simp
qed

declare log10_up.simps [simp del] log10_down.simps [simp del]

definition floor_log10 :: "rat \<Rightarrow> int" where
  "floor_log10 q = (if 1 \<le> q then int (log10_up q) else - int (log10_down q))"

text \<open>
  \<^verbatim>\<open>repr\<close> of a finite non-zero double prints the shortest decimal digit string that reads
  back (rounded to nearest even) as the same double, and among those the one nearest to
  the double's exact value. \<open>repr_search x e10 k fuel\<close> tries \<open>k\<close> digits, then \<open>k + 1\<close>, and
  so on; 17 digits always suffice. Its result \<open>(d, p)\<close> stands for \<open>d * 10^p\<close>.
\<close>

definition round_trips :: "pyfloat \<Rightarrow> int \<Rightarrow> int \<Rightarrow> bool" where
  "round_trips x d p = (fst (strtod (sign_bit x) (of_int d * pow10 p)) = x)"

fun repr_search :: "pyfloat \<Rightarrow> int \<Rightarrow> nat \<Rightarrow> nat \<Rightarrow> int \<times> int" where
  "repr_search x e10 k 0 =
     (round_half_even (magnitude x / pow10 (e10 - int k + 1)), e10 - int k + 1)"
| "repr_search x e10 k (Suc fuel) =
     (let p = e10 - int k + 1;
          lo = \<lfloor>magnitude x / pow10 p\<rfloor>;
          hi = lo + 1;
          below = magnitude x - of_int lo * pow10 p;
          above = of_int hi * pow10 p - magnitude x
      in if round_trips x lo p \<and> round_trips x hi p
         then (if below < above then (lo, p) else if above < below then (hi, p)
               else if even lo then (lo, p) else (hi, p))
         else if round_trips x lo p then (lo, p)
         else if round_trips x hi p then (hi, p)
         else repr_search x e10 (Suc k) fuel)"

function strip_zeros :: "int \<times> int \<Rightarrow> int \<times> int" where
  "strip_zeros (d, p) = (if d \<noteq> 0 \<and> d mod 10 = 0 then strip_zeros (d div 10, p + 1) else (d, p))"
  by pat_completeness auto
termination
  by (relation "measure (\<lambda>(d, p). nat \<bar>d\<bar>)") auto

declare strip_zeros.simps [simp del]

definition shortest_digits :: "pyfloat \<Rightarrow> string \<times> int" where
  "shortest_digits x =
     (case strip_zeros (repr_search x (floor_log10 (magnitude x)) 1 16) of
        (d, p) \<Rightarrow> (str_nat (nat d), p + int (length (str_nat (nat d)))))"

text \<open>
  The layout of \<^verbatim>\<open>repr\<close>: \<open>ds\<close> are the digits and \<open>decpt\<close> the position of the decimal
  point (the value is \<open>0.ds * 10^decpt\<close>). Scientific notation is used when
  \<open>decpt \<le> -4\<close> or \<open>decpt > 16\<close>.
\<close>

definition exponent_text :: "int \<Rightarrow> string" where
  "exponent_text e =
     (if e < 0 then ''e-'' else ''e+'')
     @ (if \<bar>e\<bar> < 10 then ''0'' else '''') @ str_nat (nat \<bar>e\<bar>)"

definition format_digits :: "string \<Rightarrow> int \<Rightarrow> string" where
  "format_digits ds decpt =
     (if decpt \<le> - 4 \<or> 16 < decpt
      then (if length ds = 1 then ds else take 1 ds @ ''.'' @ drop 1 ds) @ exponent_text (decpt - 1)
      else if decpt \<le> 0 then ''0.'' @ replicate (nat (- decpt)) CHR ''0'' @ ds
      else if int (length ds) \<le> decpt
        then ds @ replicate (nat (decpt - int (length ds))) CHR ''0'' @ ''.0''
      else take (nat decpt) ds @ ''.'' @ drop (nat decpt) ds)"

definition float_repr :: "pyfloat \<Rightarrow> string" where
  "float_repr x =
     (if is_nan x then ''nan''
      else (if sign_bit x then ''-'' else '''')
        @ (if is_inf x then ''inf''
           else if magnitude x = 0 then ''0.0''
           else case shortest_digits x of (ds, decpt) \<Rightarrow> format_digits ds decpt))"

text \<open>
  \<^verbatim>\<open>round(x, 2)\<close> on a \<^verbatim>\<open>float\<close>: the exact value is rounded to two decimals (ties to
  even) and the result is converted back to the nearest double, keeping the sign. NaN and
  the infinities round to themselves; an overflow of the conversion raises
  \<^verbatim>\<open>OverflowError\<close>.
\<close>

definition py_round2 :: "pyfloat \<Rightarrow> py_error + pyfloat" where
  "py_round2 x =
     (if \<not> is_finite x then Inr x
      else case strtod (sign_bit x) (of_int (round_half_even (magnitude x * 100)) / 100) of
             (y, erange) \<Rightarrow> if erange then Inl OverflowError else Inr y)"

text \<open>
  \<^verbatim>\<open>float(i)\<close> for an \<^verbatim>\<open>int\<close> (correctly rounded, \<^verbatim>\<open>OverflowError\<close> beyond the double
  range), \<^verbatim>\<open>x.is_integer()\<close> and \<^verbatim>\<open>int(x)\<close> for a \<^verbatim>\<open>float\<close> (truncation towards zero).
\<close>

definition py_float_of_int :: "int \<Rightarrow> py_error + pyfloat" where
  "py_float_of_int i =
     (case strtod (i < 0) \<bar>of_int i\<bar> of
        (x, erange) \<Rightarrow> if erange then Inl OverflowError else Inr x)"

definition is_integer :: "pyfloat \<Rightarrow> bool" where
  "is_integer x = (is_finite x \<and> of_int \<lfloor>magnitude x\<rfloor> = magnitude x)"

definition py_int_of_float :: "pyfloat \<Rightarrow> py_error + int" where
  "py_int_of_float x =
     (if is_nan x then Inl ValueError
      else if is_inf x then Inl OverflowError
      else Inr (if sign_bit x then - \<lfloor>magnitude x\<rfloor> else \<lfloor>magnitude x\<rfloor>))"

section \<open>Cell values\<close>

text \<open>
  What \<^verbatim>\<open>ws.Cells(row, col).Value\<close> delivers through COM: \<^verbatim>\<open>None\<close> for an empty
  cell, a \<^verbatim>\<open>str\<close>, a \<^verbatim>\<open>float\<close>, an \<^verbatim>\<open>int\<close> (error codes), a \<^verbatim>\<open>bool\<close>, or an
  object of another class (a date, a currency amount), which is represented by its
  \<^verbatim>\<open>str()\<close> text.
\<close>

datatype cell_value =
    VNone
  | VStr string
  | VFloat pyfloat
  | VInt int
  | VBool bool
  | VObj string

type_synonym worksheet = "int \<Rightarrow> int \<Rightarrow> cell_value"

section \<open>Strings of cell values\<close>

text \<open>
  \<^verbatim>\<open>s.strip()\<close> removes leading and trailing whitespace; below code point 256 Python's
  whitespace characters are 9 to 13, 28 to 32, 133 and 160.
\<close>

definition is_space :: "char \<Rightarrow> bool" where
  "is_space c = ((of_char c :: nat) \<in> set [9, 10, 11, 12, 13, 28, 29, 30, 31, 32, 133, 160])"

definition py_strip :: "string \<Rightarrow> string" where
  "py_strip s = rev (dropWhile is_space (rev (dropWhile is_space s)))"

fun py_str :: "cell_value \<Rightarrow> string" where
  "py_str VNone = ''None''"
| "py_str (VStr s) = s"
| "py_str (VFloat x) = float_repr x"
| "py_str (VInt i) = py_str_int i"
| "py_str (VBool b) = (if b then ''True'' else ''False'')"
| "py_str (VObj s) = s"

section \<open>The value formatter\<close>

text \<open>
  The block under \<^verbatim>\<open># --- CLEAN VALUE ---\<close>, which \<^verbatim>\<open>main\<close> repeats for the point
  fields, the LOTO amount and the cabinet label. \<^verbatim>\<open>isinstance(val, (int, float))\<close> holds
  for \<^verbatim>\<open>float\<close>, \<^verbatim>\<open>int\<close> and \<^verbatim>\<open>bool\<close> values. For an \<^verbatim>\<open>int\<close> or a \<^verbatim>\<open>bool\<close>,
  \<^verbatim>\<open>float(val)\<close> converts the integer, \<^verbatim>\<open>int(val)\<close> is the integer itself and
  \<^verbatim>\<open>round(val, 2)\<close> returns it unchanged.
\<close>

fun is_number :: "cell_value \<Rightarrow> bool" where
  "is_number (VFloat x) = True"
| "is_number (VInt i) = True"
| "is_number (VBool b) = True"
| "is_number v = False"

definition clean_number :: "cell_value \<Rightarrow> py_error + string" where
  "clean_number v =
     (case v of
        VFloat x \<Rightarrow>
          if is_integer x
          then (case py_int_of_float x of Inl e \<Rightarrow> Inl e | Inr i \<Rightarrow> Inr (py_str_int i))
          else (case py_round2 x of Inl e \<Rightarrow> Inl e | Inr y \<Rightarrow> Inr (float_repr y))
      | VInt i \<Rightarrow>
          (case py_float_of_int i of
             Inl e \<Rightarrow> Inl e
           | Inr x \<Rightarrow> if is_integer x then Inr (py_str_int i) else Inr (py_str_int i))
      | VBool b \<Rightarrow>
          (case py_float_of_int (if b then 1 else 0) of
             Inl e \<Rightarrow> Inl e
           | Inr x \<Rightarrow>
               if is_integer x then Inr (py_str_int (if b then 1 else 0))
               else Inr (py_str_int (if b then 1 else 0)))
      | _ \<Rightarrow> Inr (py_strip (py_str v)))"

definition clean_value :: "cell_value \<Rightarrow> py_error + string" where
  "clean_value val =
     (if val \<noteq> VNone \<and> py_strip (py_str val) \<notin> set ['''', ''nan'', ''None'']
      then (if is_number val then clean_number val else Inr (py_strip (py_str val)))
      else Inr '''')"

text \<open>
  Notions used to state the properties of the formatter: a numeric value with an integral
  value, that integer, and the values the COM layer can deliver (its integers fit in 64
  bits). \<open>digit_chars\<close> and \<open>visible_start\<close> are the characters a number's text consists of and
  can start with.
\<close>

definition digit_chars :: "char set" where
  "digit_chars = set ''0123456789''"

definition visible_start :: "char set" where
  "visible_start = set ''-0123456789iTF''"

fun com_range :: "cell_value \<Rightarrow> bool" where
  "com_range (VInt i) = (\<bar>i\<bar> < 2 ^ 63)"
| "com_range v = True"

fun is_integral :: "cell_value \<Rightarrow> bool" where
  "is_integral (VFloat x) = is_integer x"
| "is_integral (VInt i) = True"
| "is_integral (VBool b) = True"
| "is_integral v = False"

fun integral_value :: "cell_value \<Rightarrow> int" where
  "integral_value (VFloat x) = (if sign_bit x then - \<lfloor>magnitude x\<rfloor> else \<lfloor>magnitude x\<rfloor>)"
| "integral_value (VInt i) = i"
| "integral_value (VBool b) = (if b then 1 else 0)"
| "integral_value v = 0"

section \<open>The spreadsheet host\<close>

text \<open>
  The Excel process is outside the script. Its observable behaviour is recorded per COM
  read: \<open>responses h n\<close> tells whether the \<open>n\<close>-th read issued by the script is answered
  (\<open>None\<close>) or raises an exception with the given text. \<open>calls\<close> counts the reads issued so
  far and \<open>sleeps\<close> lists the arguments of the \<^verbatim>\<open>time.sleep\<close> calls made so far.
\<close>

record host =
  responses :: "nat \<Rightarrow> string option"
  calls :: nat
  sleeps :: "rat list"

definition com_cell_value ::
  "worksheet \<Rightarrow> int \<Rightarrow> int \<Rightarrow> host \<Rightarrow> (py_error + cell_value) \<times> host" where
  "com_cell_value ws row col h =
     ((case responses h (calls h) of
         None \<Rightarrow> Inr (ws row col)
       | Some msg \<Rightarrow> Inl (ComError msg)),
      h\<lparr>calls := Suc (calls h)\<rparr>)"

definition time_sleep :: "rat \<Rightarrow> host \<Rightarrow> host" where
  "time_sleep delay h = h\<lparr>sleeps := sleeps h @ [delay]\<rparr>"

fun py_str_error :: "py_error \<Rightarrow> string" where
  "py_str_error (ComError msg) = msg"
| "py_str_error (RuntimeError msg) = msg"
| "py_str_error IndexError = ''list index out of range''"
| "py_str_error OverflowError = ''int too large to convert to float''"
| "py_str_error ValueError = ''cannot convert float NaN to integer''"
| "py_str_error ZeroDivisionError = ''division by zero''"

text \<open>
  \<^verbatim>\<open>safe_cell(ws, row, col, retries=5, delay=0.2)\<close>. The \<^verbatim>\<open>for\<close> loop over
  \<^verbatim>\<open>range(retries)\<close> is \<open>safe_cell_loop\<close>, counting the iterations left; it yields
  \<open>None\<close> when the range is exhausted, and \<open>safe_cell\<close> then raises the
  \<^verbatim>\<open>RuntimeError\<close> of the last line.
\<close>

fun safe_cell_loop ::
  "worksheet \<Rightarrow> int \<Rightarrow> int \<Rightarrow> rat \<Rightarrow> nat \<Rightarrow> host \<Rightarrow> (py_error + cell_value) option \<times> host" where
  "safe_cell_loop ws row col delay 0 h = (None, h)"
| "safe_cell_loop ws row col delay (Suc k) h =
     (case com_cell_value ws row col h of
        (Inr v, h') \<Rightarrow> (Some (Inr v), h')
      | (Inl e, h') \<Rightarrow>
          if str_contains ''Call was rejected by callee'' (py_str_error e)
          then safe_cell_loop ws row col delay k (time_sleep delay h')
          else (Some (Inl e), h'))"

definition safe_cell ::
  "worksheet \<Rightarrow> int \<Rightarrow> int \<Rightarrow> int \<Rightarrow> rat \<Rightarrow> host \<Rightarrow> (py_error + cell_value) \<times> host" where
  "safe_cell ws row col retries delay h =
     (case safe_cell_loop ws row col delay (nat retries) h of
        (Some r, h') \<Rightarrow> (r, h')
      | (None, h') \<Rightarrow>
          (Inl (RuntimeError (''Excel did not respond after '' @ py_str_int retries
                  @ '' retries for cell ('' @ py_str_int row @ '', '' @ py_str_int col @ '')'')),
           h'))"

text \<open>The call with the default arguments, as every call site of the script makes it.\<close>

definition safe_cell_default ::
  "worksheet \<Rightarrow> int \<Rightarrow> int \<Rightarrow> host \<Rightarrow> (py_error + cell_value) \<times> host" where
  "safe_cell_default ws row col h = safe_cell ws row col 5 (1 / 5) h"

text \<open>
  The transient rejection: the \<open>n\<close>-th read raises an exception whose text contains
  \<^verbatim>\<open>Call was rejected by callee\<close>. \<open>after_rejections k delay h\<close> is the host after \<open>k\<close>
  rejected reads, each followed by a sleep.
\<close>

definition rejected_at :: "host \<Rightarrow> nat \<Rightarrow> bool" where
  "rejected_at h n =
     (case responses h n of
        None \<Rightarrow> False
      | Some msg \<Rightarrow> str_contains ''Call was rejected by callee'' msg)"

definition after_rejections :: "nat \<Rightarrow> rat \<Rightarrow> host \<Rightarrow> host" where
  "after_rejections k delay h = h\<lparr>calls := calls h + k, sleeps := sleeps h @ replicate k delay\<rparr>"

section \<open>Sticker index, slide and position\<close>

text \<open>
  Python's true division of two \<^verbatim>\<open>int\<close>s yields the double nearest to the exact
  quotient; \<^verbatim>\<open>math.ceil\<close> of a double yields an \<^verbatim>\<open>int\<close>.
\<close>

definition py_truediv :: "int \<Rightarrow> int \<Rightarrow> py_error + pyfloat" where
  "py_truediv a b =
     (if b = 0 then Inl ZeroDivisionError
      else case strtod ((a < 0) \<noteq> (b < 0)) \<bar>of_int a / of_int b\<bar> of
             (x, erange) \<Rightarrow> if erange then Inl OverflowError else Inr x)"

definition math_ceil :: "pyfloat \<Rightarrow> py_error + int" where
  "math_ceil x =
     (if is_nan x then Inl ValueError
      else if is_inf x then Inl OverflowError
      else Inr \<lceil>float_value x\<rceil>)"

text \<open>
  The loop header and the first lines of the loop body of \<^verbatim>\<open>main\<close>: the rows
  \<^verbatim>\<open>range(3, total_stickers + 3)\<close>, the sticker index of a row, the slide
  \<^verbatim>\<open>math.ceil(sticker_index / stickers_per_slide)\<close> and the position on the slide.
\<close>

definition data_rows :: "int list" where
  "data_rows = [3..total_stickers + 2]"

definition sticker_index_of :: "int \<Rightarrow> int" where
  "sticker_index_of data_row = data_row - 2"

definition slide_index_of :: "int \<Rightarrow> py_error + int" where
  "slide_index_of sticker_index =
     (case py_truediv sticker_index stickers_per_slide of
        Inl e \<Rightarrow> Inl e
      | Inr x \<Rightarrow> math_ceil x)"

definition pos_in_slide_of :: "int \<Rightarrow> int" where
  "pos_in_slide_of sticker_index = ((sticker_index - 1) mod stickers_per_slide) + 1"

section \<open>Shapes, slides and the presentation\<close>

text \<open>
  PowerPoint is outside the script; a shape is what the script reads and writes of it:
  the orientation code of its text frame (\<open>None\<close> when reading
  \<^verbatim>\<open>shp.TextFrame.Orientation\<close> raises, as for a shape without a text frame), its text,
  font size and geometry, and the set of attributes whose assignment the shape rejects
  with an exception. The script never changes the orientation or what a shape rejects.
  A slide maps shape names to shapes; the presentation is the list of its slides.
\<close>

datatype attr = AText | AFontSize | ALeft | ATop | AWidth | AHeight

record shape =
  orientation :: "int option"
  shp_text :: string
  shp_font_size :: rat
  shp_left :: rat
  shp_top :: rat
  shp_width :: rat
  shp_height :: rat
  rejects :: "attr \<Rightarrow> bool"

type_synonym slide = "string \<rightharpoonup> shape"

type_synonym presentation = "slide list"

text \<open>
  \<open>shape_at p i name\<close> is the shape called \<open>name\<close> on slide \<open>i\<close> (slides are numbered from
  1), and \<open>set_shape\<close> stores the state of a shape after the script has mutated it.
\<close>

definition shape_at :: "presentation \<Rightarrow> int \<Rightarrow> string \<Rightarrow> shape option" where
  "shape_at p i name = (if 1 \<le> i \<and> i \<le> int (length p) then (p ! nat (i - 1)) name else None)"

definition set_shape :: "presentation \<Rightarrow> int \<Rightarrow> string \<Rightarrow> shape \<Rightarrow> presentation" where
  "set_shape p i name shp =
     (if 1 \<le> i \<and> i \<le> int (length p) then p[nat (i - 1) := (p ! nat (i - 1))(name \<mapsto> shp)]
      else p)"

text \<open>\<^verbatim>\<open>safe_shape(slide, name)\<close>: the shape, or \<^verbatim>\<open>None\<close> when \<^verbatim>\<open>slide.Shapes(name)\<close> raises.\<close>

definition safe_shape :: "presentation \<Rightarrow> int \<Rightarrow> string \<Rightarrow> shape option" where
  "safe_shape p slide_index name = shape_at p slide_index name"

text \<open>
  One COM assignment to a shape attribute: it raises when the shape rejects the attribute
  and updates the shape otherwise. The result carries the shape as it is afterwards.
\<close>

definition com_assign :: "attr \<Rightarrow> (shape \<Rightarrow> shape) \<Rightarrow> shape \<Rightarrow> py_error option \<times> shape" where
  "com_assign a upd shp =
     (if rejects shp a then (Some (ComError ''assignment rejected''), shp) else (None, upd shp))"

text \<open>
  The \<^verbatim>\<open>try\<close> block that writes the text: the text is assigned unless the orientation is 3
  or 4 (vertical); \<open>text_write_body\<close> is the body, which may raise, and \<open>write_text\<close> is the
  whole statement with its \<^verbatim>\<open>except Exception: pass\<close>.
\<close>

definition text_write_body :: "shape \<Rightarrow> string \<Rightarrow> py_error option \<times> shape" where
  "text_write_body shp val_text =
     (case orientation shp of
        None \<Rightarrow> (Some (ComError ''no text frame''), shp)
      | Some code \<Rightarrow>
          if code \<notin> set [3, 4] then com_assign AText (\<lambda>s. s\<lparr>shp_text := val_text\<rparr>) shp
          else (None, shp))"

definition write_text :: "shape \<Rightarrow> string \<Rightarrow> shape" where
  "write_text shp val_text = snd (text_write_body shp val_text)"

text \<open>
  \<^verbatim>\<open>apply_coords(shp, coords)\<close>: four assignments in a row, none of them guarded, so the
  first rejected one raises and leaves the earlier ones done.
\<close>

definition apply_coords :: "shape \<Rightarrow> rat \<times> rat \<times> rat \<times> rat \<Rightarrow> py_error option \<times> shape" where
  "apply_coords shp coords =
     (case coords of
        (left_x, top_y, width, height) \<Rightarrow>
          (case com_assign ALeft (\<lambda>s. s\<lparr>shp_left := left_x\<rparr>) shp of
             (Some e, s1) \<Rightarrow> (Some e, s1)
           | (None, s1) \<Rightarrow>
               (case com_assign ATop (\<lambda>s. s\<lparr>shp_top := top_y\<rparr>) s1 of
                  (Some e, s2) \<Rightarrow> (Some e, s2)
                | (None, s2) \<Rightarrow>
                    (case com_assign AWidth (\<lambda>s. s\<lparr>shp_width := width\<rparr>) s2 of
                       (Some e, s3) \<Rightarrow> (Some e, s3)
                     | (None, s3) \<Rightarrow> com_assign AHeight (\<lambda>s. s\<lparr>shp_height := height\<rparr>) s3))))"

text \<open>
  \<^verbatim>\<open>apply_font_size(shp, size_pt)\<close>: the font size is assigned inside a
  \<^verbatim>\<open>try\<close> with \<^verbatim>\<open>except Exception: pass\<close>; a shape without text frame, text range or font
  is one that rejects the font size.
\<close>

definition apply_font_size :: "shape \<Rightarrow> rat \<Rightarrow> shape" where
  "apply_font_size shp size_pt = snd (com_assign AFontSize (\<lambda>s. s\<lparr>shp_font_size := size_pt\<rparr>) shp)"

section \<open>The main loop\<close>

text \<open>
  The console output, one event per \<^verbatim>\<open>print\<close>: the warning for a missing slide (slide
  number, sticker text), the warning for a missing shape (name, slide number), the line
  for a field that was set (name, row, column, text) and the final success line.
\<close>

datatype event =
    MissingSlide int string
  | MissingShape string int
  | SetField string int int string
  | Updated

record run_state =
  pres :: presentation
  excel :: host
  console :: "event list"

definition print_event :: "event \<Rightarrow> run_state \<Rightarrow> run_state" where
  "print_event ev st = st\<lparr>console := console st @ [ev]\<rparr>"

text \<open>The format specification \<^verbatim>\<open>:02d\<close>: zeros are added up to a width of two.\<close>

definition format_02d :: "int \<Rightarrow> string" where
  "format_02d i =
     (if length (py_str_int i) < 2 then replicate (2 - length (py_str_int i)) CHR ''0'' @ py_str_int i
      else py_str_int i)"

text \<open>
  What follows the text write in each of the three field blocks. For a point shape the
  script takes the coordinates for \<^verbatim>\<open>CABINET_SIZE\<close> and adds 40 to the width; it sets no
  font size. For the LOTO amount both the coordinates and the font size are under
  \<^verbatim>\<open>if FORCE_COORDS\<close>. For the cabinet the coordinates are under \<^verbatim>\<open>if FORCE_COORDS\<close> and
  the font size is applied after it, unconditionally.
\<close>

definition point_layout :: "bool \<Rightarrow> int \<Rightarrow> shape \<Rightarrow> py_error option \<times> shape" where
  "point_layout force pos_in_slide shp =
     (if force
      then (case coords_for_position pos_in_slide CABINET_SIZE of
              Inl e \<Rightarrow> (Some e, shp)
            | Inr (left_x, top_y, width, height) \<Rightarrow>
                apply_coords shp (left_x, top_y, width + 40, height))
      else (None, shp))"

definition loto_layout :: "bool \<Rightarrow> int \<Rightarrow> shape \<Rightarrow> py_error option \<times> shape" where
  "loto_layout force pos_in_slide shp =
     (if force
      then (case coords_for_position pos_in_slide LOTO_SIZE of
              Inl e \<Rightarrow> (Some e, shp)
            | Inr coords \<Rightarrow>
                (case apply_coords shp coords of
                   (Some e, s1) \<Rightarrow> (Some e, s1)
                 | (None, s1) \<Rightarrow> (None, apply_font_size s1 LOTO_FONT_SIZE)))
      else (None, shp))"

definition cabinet_layout :: "bool \<Rightarrow> int \<Rightarrow> shape \<Rightarrow> py_error option \<times> shape" where
  "cabinet_layout force pos_in_slide shp =
     (case (if force
            then (case coords_for_position pos_in_slide CABINET_SIZE of
                    Inl e \<Rightarrow> (Some e, shp)
                  | Inr coords \<Rightarrow> apply_coords shp coords)
            else (None, shp)) of
        (Some e, s1) \<Rightarrow> (Some e, s1)
      | (None, s1) \<Rightarrow> (None, apply_font_size s1 CABINET_FONT_SIZE))"

text \<open>
  One field block of \<^verbatim>\<open>main\<close>: look the shape up and warn if it is missing; otherwise read
  the cell (an exception of \<^verbatim>\<open>safe_cell\<close> ends the run), format the value, print the
  line, write the text and apply the layout. The three blocks of the source share these
  steps and differ in the layout only. A shape is mutated in place, so whatever an
  interrupted layout has already assigned stays in the presentation.
\<close>

definition field_block ::
  "(shape \<Rightarrow> py_error option \<times> shape) \<Rightarrow> worksheet \<Rightarrow> int \<Rightarrow> string \<Rightarrow> int \<Rightarrow> int \<Rightarrow>
     run_state \<Rightarrow> py_error option \<times> run_state" where
  "field_block layout ws slide_index name data_row col st =
     (case safe_shape (pres st) slide_index name of
        None \<Rightarrow> (None, print_event (MissingShape name slide_index) st)
      | Some shp \<Rightarrow>
          (case safe_cell_default ws data_row col (excel st) of
             (Inl e, h) \<Rightarrow> (Some e, st\<lparr>excel := h\<rparr>)
           | (Inr val, h) \<Rightarrow>
               (case clean_value val of
                  Inl e \<Rightarrow> (Some e, st\<lparr>excel := h\<rparr>)
                | Inr val_text \<Rightarrow>
                    (case layout (write_text shp val_text) of
                       (err, shp') \<Rightarrow>
                         (err,
                          print_event (SetField name data_row col val_text)
                            (st\<lparr>excel := h\<rparr>)
                            \<lparr>pres := set_shape (pres st) slide_index name shp'\<rparr>)))))"

text \<open>The names of the shapes of a sticker.\<close>

definition point_name :: "string \<Rightarrow> int \<Rightarrow> string" where
  "point_name sticker_str point_num = ''Point '' @ sticker_str @ ''.'' @ format_02d point_num"

definition loto_name :: "string \<Rightarrow> string" where
  "loto_name sticker_str = ''LOTO Amount '' @ sticker_str"

definition cabinet_name :: "string \<Rightarrow> string" where
  "cabinet_name sticker_str = ''Cabinet '' @ sticker_str"

text \<open>
  The inner loop \<^verbatim>\<open>for col, point_num in zip(range(9, 13), range(1, 5))\<close>, over the pairs
  still to be processed.
\<close>

fun points_loop ::
  "bool \<Rightarrow> worksheet \<Rightarrow> int \<Rightarrow> string \<Rightarrow> int \<Rightarrow> int \<Rightarrow> (int \<times> int) list \<Rightarrow> run_state \<Rightarrow>
     py_error option \<times> run_state" where
  "points_loop force ws slide_index sticker_str pos_in_slide data_row [] st = (None, st)"
| "points_loop force ws slide_index sticker_str pos_in_slide data_row ((col, point_num) # rest) st =
     (case field_block (point_layout force pos_in_slide) ws slide_index
             (point_name sticker_str point_num) data_row col st of
        (Some e, st') \<Rightarrow> (Some e, st')
      | (None, st') \<Rightarrow>
          points_loop force ws slide_index sticker_str pos_in_slide data_row rest st')"

definition point_columns :: "(int \<times> int) list" where
  "point_columns = zip [9..12] [1..4]"

text \<open>
  The body of the outer loop for one row. \<^verbatim>\<open>ppt_pres.Slides(slide_index)\<close> raises for an
  index below 1.
\<close>

definition process_row :: "bool \<Rightarrow> worksheet \<Rightarrow> int \<Rightarrow> run_state \<Rightarrow> py_error option \<times> run_state" where
  "process_row force ws data_row st =
     (let sticker_index = sticker_index_of data_row;
          sticker_str = format_02d sticker_index
      in case slide_index_of sticker_index of
           Inl e \<Rightarrow> (Some e, st)
         | Inr slide_index \<Rightarrow>
             if int (length (pres st)) < slide_index
             then (None, print_event (MissingSlide slide_index sticker_str) st)
             else if slide_index < 1 then (Some (ComError ''slide index out of range''), st)
             else
               let pos_in_slide = pos_in_slide_of sticker_index
               in case points_loop force ws slide_index sticker_str pos_in_slide data_row
                         point_columns st of
                    (Some e, st1) \<Rightarrow> (Some e, st1)
                  | (None, st1) \<Rightarrow>
                      (case field_block (loto_layout force pos_in_slide) ws slide_index
                              (loto_name sticker_str) data_row 13 st1 of
                         (Some e, st2) \<Rightarrow> (Some e, st2)
                       | (None, st2) \<Rightarrow>
                           field_block (cabinet_layout force pos_in_slide) ws slide_index
                             (cabinet_name sticker_str) data_row 14 st2))"

fun rows_loop :: "bool \<Rightarrow> worksheet \<Rightarrow> int list \<Rightarrow> run_state \<Rightarrow> py_error option \<times> run_state" where
  "rows_loop force ws [] st = (None, st)"
| "rows_loop force ws (data_row # rest) st =
     (case process_row force ws data_row st of
        (Some e, st') \<Rightarrow> (Some e, st')
      | (None, st') \<Rightarrow> rows_loop force ws rest st')"

text \<open>
  The part of \<^verbatim>\<open>main\<close> after the workbook and the presentation have been opened: the
  loop over the rows and the final line. \<open>force\<close> is the value of \<^verbatim>\<open>FORCE_COORDS\<close>;
  \<open>main\<close> is the script as configured.
\<close>

definition run_main :: "bool \<Rightarrow> worksheet \<Rightarrow> run_state \<Rightarrow> py_error option \<times> run_state" where
  "run_main force ws st =
     (case rows_loop force ws data_rows st of
        (Some e, st') \<Rightarrow> (Some e, st')
      | (None, st') \<Rightarrow> (None, print_event Updated st'))"

definition main :: "worksheet \<Rightarrow> run_state \<Rightarrow> py_error option \<times> run_state" where
  "main ws st = run_main FORCE_COORDS ws st"

section \<open>Properties of the grid coordinates\<close>

lemma position_cases:
  fixes p :: int
  assumes "1 \<le> p" "p \<le> 6"
  shows "p = 1 \<or> p = 2 \<or> p = 3 \<or> p = 4 \<or> p = 5 \<or> p = 6"
  using assms by arith

text \<open>
  Claim C8. For every position \<open>p\<close> in \<open>1..6\<close> and every size \<open>(w, h)\<close>,
  \<open>coords_for_position p (w, h)\<close> returns
  \<open>(BASE_LEFTS[(p-1) mod 2], BASE_TOPS[(p-1) div 2], w, h)\<close> without raising. Consequently
  positions 1 and 2 at size \<open>(10, 20)\<close> differ only in \<open>left\<close> (2 against 507), and
  positions 1 and 3 at any size differ only in \<open>top\<close> (63 against 245).
\<close>

theorem coords_for_position_grid:
  "(1 \<le> p \<and> p \<le> 6 \<longrightarrow>
      coords_for_position p (w, h) =
        Inr (BASE_LEFTS ! nat ((p - 1) mod 2), BASE_TOPS ! nat ((p - 1) div 2), w, h))
   \<and> coords_for_position 1 (10, 20) = Inr (2, 63, 10, 20)
   \<and> coords_for_position 2 (10, 20) = Inr (507, 63, 10, 20)
   \<and> coords_for_position 1 (w, h) = Inr (2, 63, w, h)
   \<and> coords_for_position 3 (w, h) = Inr (2, 245, w, h)"
proof -
  have general: "coords_for_position p (w, h) =
        Inr (BASE_LEFTS ! nat ((p - 1) mod 2), BASE_TOPS ! nat ((p - 1) div 2), w, h)"
    if "1 \<le> p" "p \<le> 6"
  proof -
    from position_cases [OF that]
    show ?thesis
      by (elim disjE)
        (simp_all add: coords_for_position_def py_index_def BASE_LEFTS_def BASE_TOPS_def)
  qed
  have fixed: "coords_for_position 1 (a, b) = Inr (2, 63, a, b)"
    "coords_for_position 2 (a, b) = Inr (507, 63, a, b)"
    "coords_for_position 3 (a, b) = Inr (2, 245, a, b)" for a b
    by (simp_all add: coords_for_position_def py_index_def BASE_LEFTS_def BASE_TOPS_def)
  show ?thesis
    using general fixed by blast
qed

theorem coords_for_position_grid_witness:
  "coords_for_position 4 (10, 20) = Inr (507, 245, 10, 20)"
proof -
  have "coords_for_position 4 (10, 20) =
      Inr (BASE_LEFTS ! nat ((4 - 1) mod 2), BASE_TOPS ! nat ((4 - 1) div 2), 10, 20)"
    using coords_for_position_grid [of 4 10 20] by simp
  then show ?thesis
    by (simp add: BASE_LEFTS_def BASE_TOPS_def)
qed

section \<open>Properties of the cell reader\<close>

lemma after_rejections_0: "after_rejections 0 d h = h"
  by (simp add: after_rejections_def)

lemma safe_cell_loop_rejected:
  assumes "rejected_at h (calls h)"
  shows "safe_cell_loop ws row col d (Suc n) h = safe_cell_loop ws row col d n (after_rejections 1 d h)"
  using assms
  by (auto simp: safe_cell_loop.simps rejected_at_def com_cell_value_def time_sleep_def
      after_rejections_def split: option.splits)

lemma after_rejections_Suc:
  "after_rejections k d (after_rejections 1 d h) = after_rejections (Suc k) d h"
  by (simp add: after_rejections_def replicate_append_same)

declare safe_cell_loop.simps(2) [simp del]

lemma safe_cell_loop_rejections:
  "(\<And>i. i < k \<Longrightarrow> rejected_at h (calls h + i)) \<Longrightarrow>
   safe_cell_loop ws row col d (k + n) h = safe_cell_loop ws row col d n (after_rejections k d h)"
proof (induction k arbitrary: h)
  case 0
  show ?case by (simp add: after_rejections_0)
next
  case (Suc k)
  have first: "rejected_at h (calls h)"
    using Suc.prems [of 0] by simp
  have rest: "rejected_at (after_rejections 1 d h) (calls (after_rejections 1 d h) + i)" if "i < k" for i
    using Suc.prems [of "Suc i"] that by (simp add: after_rejections_def rejected_at_def)
  have "safe_cell_loop ws row col d (Suc k + n) h
      = safe_cell_loop ws row col d (k + n) (after_rejections 1 d h)"
    using safe_cell_loop_rejected [OF first] by simp
  also have "\<dots> = safe_cell_loop ws row col d n (after_rejections k d (after_rejections 1 d h))"
    using Suc.IH [OF rest] by simp
  finally show ?case
    by (simp only: after_rejections_Suc)
qed

lemma safe_cell_loop_answered:
  assumes "responses h (calls h) = None"
  shows "safe_cell_loop ws row col d (Suc n) h = (Some (Inr (ws row col)), h\<lparr>calls := Suc (calls h)\<rparr>)"
  using assms by (simp add: safe_cell_loop.simps com_cell_value_def)

lemma safe_cell_loop_other:
  assumes "responses h (calls h) = Some msg" "\<not> str_contains ''Call was rejected by callee'' msg"
  shows "safe_cell_loop ws row col d (Suc n) h = (Some (Inl (ComError msg)), h\<lparr>calls := Suc (calls h)\<rparr>)"
  using assms by (simp add: safe_cell_loop.simps com_cell_value_def)

lemma str_nat_small: "n < 10 \<Longrightarrow> str_nat n = [digit_char n]"
  by (simp add: str_nat.simps)

text \<open>
  Claim C3. \<open>safe_cell\<close> with its default arguments retries only on the transient
  rejection and sleeps 0.2 after each rejected read. If the first \<open>k < 5\<close> reads are rejected
  and the next one is answered, the cell value is returned after \<open>k + 1\<close> reads and exactly
  \<open>k\<close> sleeps of 0.2. If instead the next read raises any other exception, that exception
  propagates at once (no further read, no further sleep). If five reads in a row are
  rejected, a \<^verbatim>\<open>RuntimeError\<close> naming the row and the column is raised after exactly five
  reads.
\<close>

theorem safe_cell_retry:
  "(k < 5 \<and> (\<forall>i<k. rejected_at h (calls h + i)) \<and> responses h (calls h + k) = None \<longrightarrow>
      safe_cell_default ws row col h =
        (Inr (ws row col), h\<lparr>calls := calls h + k + 1, sleeps := sleeps h @ replicate k (1 / 5)\<rparr>))
   \<and> (k < 5 \<and> (\<forall>i<k. rejected_at h (calls h + i)) \<and> responses h (calls h + k) = Some msg
        \<and> \<not> str_contains ''Call was rejected by callee'' msg \<longrightarrow>
      safe_cell_default ws row col h =
        (Inl (ComError msg), h\<lparr>calls := calls h + k + 1, sleeps := sleeps h @ replicate k (1 / 5)\<rparr>))
   \<and> ((\<forall>i<5. rejected_at h (calls h + i)) \<longrightarrow>
      safe_cell_default ws row col h =
        (Inl (RuntimeError (''Excel did not respond after 5 retries for cell (''
               @ py_str_int row @ '', '' @ py_str_int col @ '')'')),
         h\<lparr>calls := calls h + 5, sleeps := sleeps h @ replicate 5 (1 / 5)\<rparr>))"
proof (intro conjI impI)
  assume a: "k < 5 \<and> (\<forall>i<k. rejected_at h (calls h + i)) \<and> responses h (calls h + k) = None"
  then obtain n where n: "nat 5 = k + Suc n"
    by (metis add_Suc_right less_imp_Suc_add nat_numeral)
  have "safe_cell_loop ws row col (1 / 5) (k + Suc n) h
      = safe_cell_loop ws row col (1 / 5) (Suc n) (after_rejections k (1 / 5) h)"
    using a by (intro safe_cell_loop_rejections) simp
  also have "\<dots> = (Some (Inr (ws row col)), (after_rejections k (1 / 5) h)\<lparr>calls := Suc (calls (after_rejections k (1 / 5) h))\<rparr>)"
    using a by (intro safe_cell_loop_answered) (simp add: after_rejections_def)
  finally show "safe_cell_default ws row col h =
        (Inr (ws row col), h\<lparr>calls := calls h + k + 1, sleeps := sleeps h @ replicate k (1 / 5)\<rparr>)"
    unfolding safe_cell_default_def safe_cell_def n
    by (simp add: after_rejections_def)
next
  assume a: "k < 5 \<and> (\<forall>i<k. rejected_at h (calls h + i)) \<and> responses h (calls h + k) = Some msg
        \<and> \<not> str_contains ''Call was rejected by callee'' msg"
  then obtain n where n: "nat 5 = k + Suc n"
    by (metis add_Suc_right less_imp_Suc_add nat_numeral)
  have "safe_cell_loop ws row col (1 / 5) (k + Suc n) h
      = safe_cell_loop ws row col (1 / 5) (Suc n) (after_rejections k (1 / 5) h)"
    using a by (intro safe_cell_loop_rejections) simp
  also have "\<dots> = (Some (Inl (ComError msg)), (after_rejections k (1 / 5) h)\<lparr>calls := Suc (calls (after_rejections k (1 / 5) h))\<rparr>)"
    using a by (intro safe_cell_loop_other) (simp_all add: after_rejections_def)
  finally show "safe_cell_default ws row col h =
        (Inl (ComError msg), h\<lparr>calls := calls h + k + 1, sleeps := sleeps h @ replicate k (1 / 5)\<rparr>)"
    unfolding safe_cell_default_def safe_cell_def n
    by (simp add: after_rejections_def)
next
  assume a: "\<forall>i<5. rejected_at h (calls h + i)"
  have "safe_cell_loop ws row col (1 / 5) (5 + 0) h
      = safe_cell_loop ws row col (1 / 5) 0 (after_rejections 5 (1 / 5) h)"
    using a by (intro safe_cell_loop_rejections) simp
  then have "safe_cell_loop ws row col (1 / 5) (nat 5) h = (None, after_rejections 5 (1 / 5) h)"
    by simp
  then show "safe_cell_default ws row col h =
        (Inl (RuntimeError (''Excel did not respond after 5 retries for cell (''
               @ py_str_int row @ '', '' @ py_str_int col @ '')'')),
         h\<lparr>calls := calls h + 5, sleeps := sleeps h @ replicate 5 (1 / 5)\<rparr>)"
    by (simp add: safe_cell_default_def safe_cell_def after_rejections_def py_str_int_def
        str_nat_small digit_char_def)
qed


theorem safe_cell_retry_witness:
  "safe_cell_default (\<lambda>r c. VStr ''ok'') 3 9
      \<lparr>responses = (\<lambda>n. if n < 3 then Some ''Call was rejected by callee.'' else None),
       calls = 0, sleeps = []\<rparr>
    = (Inr (VStr ''ok''),
       \<lparr>responses = (\<lambda>n. if n < 3 then Some ''Call was rejected by callee.'' else None),
        calls = 4, sleeps = [1 / 5, 1 / 5, 1 / 5]\<rparr>)
   \<and> safe_cell_default (\<lambda>r c. VStr ''ok'') 3 9
      \<lparr>responses = (\<lambda>n. if n < 1 then Some ''Call was rejected by callee.''
                          else Some ''Server busy''),
       calls = 0, sleeps = []\<rparr>
    = (Inl (ComError ''Server busy''),
       \<lparr>responses = (\<lambda>n. if n < 1 then Some ''Call was rejected by callee.''
                          else Some ''Server busy''),
        calls = 2, sleeps = [1 / 5]\<rparr>)
   \<and> safe_cell_default (\<lambda>r c. VStr ''ok'') 3 9
      \<lparr>responses = (\<lambda>n. Some ''Call was rejected by callee.''), calls = 0, sleeps = []\<rparr>
    = (Inl (RuntimeError ''Excel did not respond after 5 retries for cell (3, 9)''),
       \<lparr>responses = (\<lambda>n. Some ''Call was rejected by callee.''), calls = 5,
        sleeps = [1 / 5, 1 / 5, 1 / 5, 1 / 5, 1 / 5]\<rparr>)"
proof (intro conjI)
  let ?h = "\<lparr>responses = (\<lambda>n. if n < 3 then Some ''Call was rejected by callee.'' else None),
       calls = 0, sleeps = []\<rparr>"
  show "safe_cell_default (\<lambda>r c. VStr ''ok'') 3 9 ?h
      = (Inr (VStr ''ok''),
         \<lparr>responses = (\<lambda>n. if n < 3 then Some ''Call was rejected by callee.'' else None),
          calls = 4, sleeps = [1 / 5, 1 / 5, 1 / 5]\<rparr>)"
    using safe_cell_retry [of 3 ?h "\<lambda>r c. VStr ''ok''" 3 9]
    by (simp add: rejected_at_def numeral_3_eq_3)
next
  let ?h = "\<lparr>responses = (\<lambda>n. if n < 1 then Some ''Call was rejected by callee.''
                          else Some ''Server busy''),
       calls = 0, sleeps = []\<rparr>"
  show "safe_cell_default (\<lambda>r c. VStr ''ok'') 3 9 ?h
      = (Inl (ComError ''Server busy''),
         \<lparr>responses = (\<lambda>n. if n < 1 then Some ''Call was rejected by callee.''
                          else Some ''Server busy''),
          calls = 2, sleeps = [1 / 5]\<rparr>)"
    using safe_cell_retry [of 1 ?h "\<lambda>r c. VStr ''ok''" 3 9 "''Server busy''"]
    by (simp add: rejected_at_def)
next
  let ?h = "\<lparr>responses = (\<lambda>n. Some ''Call was rejected by callee.''), calls = 0, sleeps = []\<rparr>"
  show "safe_cell_default (\<lambda>r c. VStr ''ok'') 3 9 ?h
      = (Inl (RuntimeError ''Excel did not respond after 5 retries for cell (3, 9)''),
         \<lparr>responses = (\<lambda>n. Some ''Call was rejected by callee.''), calls = 5,
          sleeps = [1 / 5, 1 / 5, 1 / 5, 1 / 5, 1 / 5]\<rparr>)"
    using safe_cell_retry [of 0 ?h "\<lambda>r c. VStr ''ok''" 3 9]
    by (simp add: rejected_at_def py_str_int_def str_nat_small digit_char_def
        numeral_eq_Suc)
qed

section \<open>Properties of the double model\<close>

lemma pow2_pos: "0 < pow2 e"
  by (simp add: pow2_def)

lemma pow2_add: "pow2 (a + b) = pow2 a * pow2 b"
proof -
  have "pow2 e = 2 powi e" for e
    by (simp add: pow2_def power_int_def inverse_eq_divide power_one_over)
  then show ?thesis
    by (simp add: power_int_add)
qed

lemma pow2_0: "pow2 0 = 1"
  by (simp add: pow2_def)

lemma pow2_1: "pow2 1 = 2"
  by (simp add: pow2_def)

lemma pow2_Suc: "pow2 (e + 1) = 2 * pow2 e"
  by (simp add: pow2_add pow2_1)

lemma pow2_nat: "pow2 (int n) = 2 ^ n"
  by (simp add: pow2_def)

lemma pow2_neg: "pow2 (- e) = 1 / pow2 e"
proof -
  have "pow2 (- e) * pow2 e = 1"
    by (metis add.left_inverse pow2_0 pow2_add)
  then show ?thesis
    using pow2_pos [of e] by (simp add: field_simps)
qed

lemma pow2_mono: "a \<le> b \<Longrightarrow> pow2 a \<le> pow2 b"
proof -
  assume "a \<le> b"
  then obtain n where b: "b = a + int n"
    by (metis zle_iff_zadd)
  have "1 \<le> (2 :: rat) ^ n" by simp
  then show ?thesis
    using pow2_pos [of a] by (simp add: b pow2_add pow2_nat)
qed

lemma pow2_less_imp: "pow2 a \<le> q \<Longrightarrow> q < pow2 b \<Longrightarrow> a < b"
  using pow2_mono [of b a] by (cases "a < b") auto

lemma log2_up_bounds: "1 \<le> q \<Longrightarrow> 2 ^ log2_up q \<le> q \<and> q < 2 * 2 ^ log2_up q"
proof (induction q rule: log2_up.induct)
  case (1 q)
  show ?case
  proof (cases "q < 2")
    case True
    then show ?thesis using "1.prems" by (simp add: log2_up.simps)
  next
    case False
    then have "1 \<le> q / 2" by simp
    from "1.IH" [OF False this] show ?thesis
      using False by (simp add: log2_up.simps [of q])
  qed
qed

lemma log2_down_bounds:
  "0 < q \<Longrightarrow> q < 1 \<Longrightarrow> 1 \<le> q * 2 ^ log2_down q \<and> q * 2 ^ log2_down q < 2"
proof (induction q rule: log2_down.induct)
  case (1 q)
  have rec: "log2_down q = Suc (log2_down (2 * q))"
    using "1.prems" by (simp add: log2_down.simps [of q])
  show ?case
  proof (cases "2 * q < 1")
    case True
    have "\<not> (q \<le> 0 \<or> 1 \<le> q)" using "1.prems" by simp
    from "1.IH" [OF this _ True] "1.prems" show ?thesis
      by (simp add: rec mult.assoc)
  next
    case False
    then have "log2_down (2 * q) = 0"
      by (simp add: log2_down.simps [of "2 * q"])
    then show ?thesis
      using False "1.prems" by (simp add: rec)
  qed
qed

lemma floor_log2_bounds:
  assumes "0 < q"
  shows "pow2 (floor_log2 q) \<le> q \<and> q < pow2 (floor_log2 q + 1)"
proof (cases "1 \<le> q")
  case True
  then show ?thesis
    using log2_up_bounds [OF True] by (simp add: floor_log2_def pow2_Suc pow2_nat)
next
  case False
  then have lt: "q < 1" by simp
  have p: "pow2 (- int (log2_down q)) = 1 / 2 ^ log2_down q"
    by (simp add: pow2_neg pow2_nat)
  have fl: "floor_log2 q = - int (log2_down q)"
    using False by (simp add: floor_log2_def)
  from log2_down_bounds [OF assms lt] show ?thesis
    unfolding fl pow2_Suc p by (simp add: field_simps)
qed

lemma round_half_even_bounds: "\<lfloor>y\<rfloor> \<le> round_half_even y \<and> round_half_even y \<le> \<lceil>y\<rceil>"
proof -
  have "\<lfloor>y\<rfloor> \<le> \<lceil>y\<rceil>" by (simp add: floor_le_ceiling)
  moreover have "\<lceil>y\<rceil> = \<lfloor>y\<rfloor> + 1" if "y - of_int \<lfloor>y\<rfloor> \<noteq> 0"
    using that by (metis ceiling_altdef diff_self floor_of_int of_int_floor_cancel eq_iff_diff_eq_0)
  ultimately show ?thesis
    by (auto simp: round_half_even_def Let_def)
qed



lemma uint_exp_word: "0 \<le> k \<Longrightarrow> k < 2048 \<Longrightarrow> uint (word_of_int k :: 11 word) = k"
  by (simp add: uint_word_of_int take_bit_int_eq_self)

lemma uint_frac_word: "0 \<le> k \<Longrightarrow> k < 2 ^ 52 \<Longrightarrow> uint (word_of_int k :: 52 word) = k"
  by (simp add: uint_word_of_int take_bit_int_eq_self)

lemma magnitude_normal:
  assumes "1 \<le> E" "E < 2048" "0 \<le> F" "F < 2 ^ 52"
  shows "magnitude (PyFloat neg (word_of_int E) (word_of_int F))
           = of_int (2 ^ 52 + F) * pow2 (E - 1075)"
  using assms by (simp add: magnitude_def uint_exp_word uint_frac_word)

lemma below_threshold: "q < pow2 1023 \<Longrightarrow> q < overflow_threshold"
proof -
  have "pow2 1023 \<le> overflow_threshold"
    by (simp add: pow2_def overflow_threshold_def)
  then show "q < pow2 1023 \<Longrightarrow> q < overflow_threshold"
    by simp
qed

lemma strtod_normal:
  assumes lo: "pow2 (- 1022) \<le> q" and hi: "q < pow2 1023"
  shows "\<exists>x. strtod neg q = (x, False) \<and> uint (exp_bits x) < 2047 \<and> sign_bit x = neg
           \<and> magnitude x
               = of_int (round_half_even (q / pow2 (floor_log2 q - 52))) * pow2 (floor_log2 q - 52)"
proof -
  define e where "e = floor_log2 q"
  define u where "u = e - 52"
  define M where "M = round_half_even (q / pow2 u)"
  have pos: "0 < q"
    using lo pow2_pos [of "- 1022"] by simp
  have b: "pow2 e \<le> q" "q < pow2 (e + 1)"
    using floor_log2_bounds [OF pos] by (simp_all add: e_def)
  have e_lo: "- 1022 \<le> e"
    using pow2_less_imp [OF lo b(2)] by simp
  have e_hi: "e \<le> 1022"
    using pow2_less_imp [OF b(1) hi] by simp
  have umax: "max (e - 52) (- 1074) = u"
    using e_lo by (simp add: u_def)
  have pu: "0 < pow2 u" by (rule pow2_pos)
  have c52: "pow2 52 = 2 ^ 52" and c53: "pow2 53 = 2 ^ 53"
    by (simp_all add: pow2_def)
  have "u + 52 = e" "u + 53 = e + 1"
    by (simp_all add: u_def)
  then have split: "pow2 e = pow2 u * 2 ^ 52" "pow2 (e + 1) = pow2 u * 2 ^ 53"
    using pow2_add [of u 52] pow2_add [of u 53] by (simp_all only: c52 c53)
  have y: "2 ^ 52 \<le> q / pow2 u" "q / pow2 u < 2 ^ 53"
    using b pu unfolding split by (simp_all add: field_simps)
  have fl: "(2 :: int) ^ 52 \<le> \<lfloor>q / pow2 u\<rfloor>"
    using y(1) by (simp add: le_floor_iff)
  have ce: "\<lceil>q / pow2 u\<rceil> \<le> (2 :: int) ^ 53"
    using y(2) by (simp add: ceiling_le_iff)
  have M: "2 ^ 52 \<le> M" "M \<le> 2 ^ 53"
    unfolding M_def using round_half_even_bounds [of "q / pow2 u"] fl ce by linarith+
  have nz: "q \<noteq> 0" "\<not> overflow_threshold \<le> q"
    using pos below_threshold [OF hi] by simp_all
  have result: "\<exists>x. strtod neg q = (x, False) \<and> uint (exp_bits x) < 2047 \<and> sign_bit x = neg
           \<and> magnitude x = of_int M * pow2 u"
    if st: "strtod neg q = (PyFloat neg (word_of_int E) (word_of_int F), False)"
      and E: "1 \<le> E" "E < 2047" and F: "0 \<le> F" "F < 2 ^ 52"
      and v: "of_int (2 ^ 52 + F) * pow2 (E - 1075) = of_int M * pow2 u" for E F
  proof -
    have "magnitude (PyFloat neg (word_of_int E) (word_of_int F)) = of_int M * pow2 u"
      using magnitude_normal [of E F neg] E F v by simp
    moreover have "uint (word_of_int E :: 11 word) < 2047"
      using uint_exp_word [of E] E by simp
    ultimately show ?thesis
      using st by simp
  qed
  show ?thesis
  proof (cases "M = 2 ^ 53")
    case True
    define E where "E = u + 1076"
    have st: "strtod neg q = (PyFloat neg (word_of_int E) (word_of_int 0), False)"
      using nz True
      by (simp add: strtod_def Let_def umax [unfolded e_def] M_def [symmetric, unfolded u_def e_def]
          u_def e_def E_def)
    have "E - 1075 = u + 1" by (simp add: E_def)
    then have "pow2 (E - 1075) = 2 * pow2 u"
      by (simp only: pow2_Suc)
    then have v: "of_int (2 ^ 52 + 0) * pow2 (E - 1075) = of_int M * pow2 u"
      by (simp add: True)
    have "\<exists>x. strtod neg q = (x, False) \<and> uint (exp_bits x) < 2047 \<and> sign_bit x = neg
           \<and> magnitude x = of_int M * pow2 u"
      using e_lo e_hi by (intro result [OF st _ _ _ _ v]) (simp_all add: E_def u_def)
    then show ?thesis
      by (simp only: M_def u_def e_def)
  next
    case False
    then have M2: "M < 2 ^ 53" using M by simp
    define E where "E = u + 1075"
    define F where "F = M - 2 ^ 52"
    have st: "strtod neg q = (PyFloat neg (word_of_int E) (word_of_int F), False)"
      using nz False M(1)
      by (simp add: strtod_def Let_def umax [unfolded e_def] M_def [symmetric, unfolded u_def e_def]
          u_def e_def E_def F_def)
    have v: "of_int (2 ^ 52 + F) * pow2 (E - 1075) = of_int M * pow2 u"
      by (simp add: E_def F_def)
    have "\<exists>x. strtod neg q = (x, False) \<and> uint (exp_bits x) < 2047 \<and> sign_bit x = neg
           \<and> magnitude x = of_int M * pow2 u"
      using e_lo e_hi M(1) M2 by (intro result [OF st _ _ _ _ v]) (simp_all add: E_def F_def u_def)
    then show ?thesis
      by (simp only: M_def u_def e_def)
  qed
qed


lemma ceiling_of_rounded_quotient:
  fixes n :: int and P :: int
  assumes n: "0 < n" and P: "6 \<le> P"
    and M: "\<lfloor>(of_int n / 6 :: rat) * of_int P\<rfloor> \<le> M" "M \<le> \<lceil>(of_int n / 6 :: rat) * of_int P\<rceil>"
  shows "\<lceil>(of_int M :: rat) / of_int P\<rceil> = \<lceil>(of_int n :: rat) / 6\<rceil>"
proof -
  define c where "c = \<lceil>(of_int n :: rat) / 6\<rceil>"
  define y where "y = (of_int n / 6 :: rat) * of_int P"
  have Ppos: "(0 :: rat) < of_int P" using P by simp
  have up: "(of_int n :: rat) / 6 \<le> of_int c"
    by (simp add: c_def)
  have "of_int c - 1 < (of_int n :: rat) / 6"
    unfolding c_def by linarith
  then have "(of_int (6 * (c - 1)) :: rat) < of_int n"
    by simp
  then have "6 * (c - 1) < n"
    by (simp only: of_int_less_iff)
  then have "6 * (c - 1) + 1 \<le> n" by simp
  then have "(of_int (6 * (c - 1) + 1) :: rat) \<le> of_int n"
    by (simp only: of_int_le_iff)
  then have low: "of_int (c - 1) + 1 / 6 \<le> (of_int n :: rat) / 6"
    by simp
  have "y \<le> of_int c * of_int P"
    unfolding y_def using up Ppos by (simp add: mult_right_mono)
  then have "y \<le> of_int (c * P)" by simp
  then have "\<lceil>y\<rceil> \<le> c * P"
    by (simp only: ceiling_le_iff)
  then have M_up: "M \<le> c * P"
    using M(2) by (simp add: y_def)
  have "(of_int (c - 1) + 1 / 6) * of_int P \<le> y"
    unfolding y_def using low Ppos by (simp only: mult_right_mono less_imp_le)
  moreover have "(1 :: rat) \<le> of_int P / 6"
    using P by simp
  ultimately have "of_int ((c - 1) * P + 1) \<le> y"
    by (simp add: algebra_simps)
  then have "(c - 1) * P + 1 \<le> \<lfloor>y\<rfloor>"
    by (simp only: le_floor_iff)
  then have M_low: "(c - 1) * P < M"
    using M(1) by (simp add: y_def)
  have "(of_int ((c - 1) * P) :: rat) < of_int M"
    using M_low by (simp only: of_int_less_iff)
  then have a: "of_int c - 1 < (of_int M :: rat) / of_int P"
    using Ppos by (simp add: field_simps)
  have "(of_int M :: rat) \<le> of_int (c * P)"
    using M_up by (simp only: of_int_le_iff)
  then have b: "(of_int M :: rat) / of_int P \<le> of_int c"
    using Ppos by (simp add: field_simps)
  show ?thesis
    using a b by (simp only: c_def [symmetric] ceiling_unique)
qed

lemma slide_index_of_ceiling:
  assumes "1 \<le> n" "n \<le> 2 ^ 50"
  shows "slide_index_of n = Inr \<lceil>(of_int n :: rat) / 6\<rceil>"
proof -
  define q :: rat where "q = of_int n / 6"
  define u where "u = floor_log2 q - 52"
  define M where "M = round_half_even (q / pow2 u)"
  have qpos: "0 < q" using assms by (simp add: q_def)
  have "(of_int 1 :: rat) \<le> of_int n" using assms(1) by (simp only: of_int_le_iff)
  then have "1 / 6 \<le> q" by (simp add: q_def)
  moreover have "pow2 (- 1022) \<le> 1 / 6" by (simp add: pow2_def)
  ultimately have lo: "pow2 (- 1022) \<le> q" by simp
  have "(of_int n :: rat) \<le> of_int (2 ^ 50)" using assms(2) by (simp only: of_int_le_iff)
  then have q50: "q < pow2 50" by (simp add: q_def pow2_def)
  moreover have "pow2 50 \<le> pow2 1023" by (rule pow2_mono) simp
  ultimately have hi: "q < pow2 1023" by simp
  from strtod_normal [OF lo hi, of False] obtain x where
    x: "strtod False q = (x, False)" "uint (exp_bits x) < 2047" "sign_bit x = False"
      "magnitude x = of_int M * pow2 u"
    by (auto simp: M_def u_def)
  have "floor_log2 q < 50"
    using floor_log2_bounds [OF qpos] q50 pow2_less_imp by blast
  then have u_neg: "u \<le> - 3" by (simp add: u_def)
  define P :: int where "P = 2 ^ nat (- u)"
  have "(2 :: int) ^ 3 \<le> 2 ^ nat (- u)"
    using u_neg by (intro power_increasing) simp_all
  then have P6: "6 \<le> P" by (simp add: P_def)
  have pu: "pow2 u = 1 / of_int P"
    using u_neg by (simp add: pow2_def P_def)
  have y: "q / pow2 u = (of_int n / 6) * of_int P"
    by (simp add: pu q_def)
  have Mb: "\<lfloor>(of_int n / 6 :: rat) * of_int P\<rfloor> \<le> M" "M \<le> \<lceil>(of_int n / 6 :: rat) * of_int P\<rceil>"
    using round_half_even_bounds [of "q / pow2 u"] by (simp_all add: M_def y)
  have n0: "0 < n" using assms(1) by simp
  have val: "\<lceil>magnitude x\<rceil> = \<lceil>(of_int n :: rat) / 6\<rceil>"
    using ceiling_of_rounded_quotient [OF n0 P6 Mb] by (simp add: x(4) pu)
  have div: "py_truediv n stickers_per_slide = Inr x"
    using x(1) assms(1) by (simp add: py_truediv_def stickers_per_slide_def q_def)
  show ?thesis
    using val x(2,3)
    by (simp add: slide_index_of_def div math_ceil_def is_nan_def is_inf_def float_value_def)
qed

lemma ceiling_sixth: "\<lceil>(of_int n :: rat) / 6\<rceil> = (n + 5) div 6"
proof -
  have "- ((of_int n :: rat) / 6) = of_int (- n) / of_int 6"
    by simp
  then have "\<lceil>(of_int n :: rat) / 6\<rceil> = - (- n div 6)"
    unfolding ceiling_def by (simp only: floor_divide_of_int_eq)
  also have "\<dots> = (n + 5) div 6" by presburger
  finally show ?thesis .
qed

section \<open>Properties of the slide and position computation\<close>

text \<open>
  Claim C1. For every sticker index \<open>n\<close> with \<open>1 \<le> n \<le> total_stickers\<close> (and 6 stickers
  per slide) the slide computed by \<^verbatim>\<open>math.ceil(n / 6)\<close> on doubles is the exact ceiling of
  \<open>n / 6\<close>, and the position is \<open>((n - 1) mod 6) + 1\<close>, which lies in \<open>1..6\<close>. Index 1 gives
  slide 1 position 1, index 6 gives slide 1 position 6, index 7 gives slide 2 position 1.
\<close>

theorem slide_and_position:
  "(1 \<le> n \<and> n \<le> total_stickers \<longrightarrow>
      slide_index_of n = Inr \<lceil>(of_int n :: rat) / 6\<rceil>
      \<and> pos_in_slide_of n = ((n - 1) mod 6) + 1
      \<and> 1 \<le> pos_in_slide_of n \<and> pos_in_slide_of n \<le> 6)
   \<and> slide_index_of 1 = Inr 1 \<and> pos_in_slide_of 1 = 1
   \<and> slide_index_of 6 = Inr 1 \<and> pos_in_slide_of 6 = 6
   \<and> slide_index_of 7 = Inr 2 \<and> pos_in_slide_of 7 = 1"
proof -
  have slide: "slide_index_of k = Inr ((k + 5) div 6)" if "1 \<le> k" "k \<le> 120" for k
  proof -
    have "k \<le> 2 ^ 50" using that(2) by simp
    from slide_index_of_ceiling [OF that(1) this] show ?thesis
      by (simp only: ceiling_sixth)
  qed
  have general: "slide_index_of n = Inr \<lceil>(of_int n :: rat) / 6\<rceil>
      \<and> pos_in_slide_of n = ((n - 1) mod 6) + 1
      \<and> 1 \<le> pos_in_slide_of n \<and> pos_in_slide_of n \<le> 6"
    if "1 \<le> n" "n \<le> total_stickers"
  proof -
    have "n \<le> 2 ^ 50" using that(2) by (simp add: total_stickers_def)
    from slide_index_of_ceiling [OF that(1) this] show ?thesis
      by (simp add: pos_in_slide_of_def stickers_per_slide_def)
  qed
  have "slide_index_of 1 = Inr 1" "slide_index_of 6 = Inr 1" "slide_index_of 7 = Inr 2"
    using slide [of 1] slide [of 6] slide [of 7] by simp_all
  moreover have "pos_in_slide_of 1 = 1" "pos_in_slide_of 6 = 6" "pos_in_slide_of 7 = 1"
    by (simp_all add: pos_in_slide_of_def stickers_per_slide_def)
  ultimately show ?thesis
    using general by blast
qed

theorem slide_and_position_witness:
  "slide_index_of 13 = Inr 3 \<and> pos_in_slide_of 13 = 1"
proof -
  have "\<lceil>(of_int 13 :: rat) / 6\<rceil> = 3"
    by (simp only: ceiling_sixth)
  then show ?thesis
    using slide_and_position [of 13] by (simp add: total_stickers_def)
qed

section \<open>Properties of the value formatter\<close>

lemma digit_char_in: "d < 10 \<Longrightarrow> digit_char d \<in> digit_chars"
proof -
  assume "d < 10"
  then have "d \<in> {0, 1, 2, 3, 4, 5, 6, 7, 8, 9}" by auto
  then show ?thesis
    by (auto simp: digit_char_def digit_chars_def)
qed

lemma str_nat_chars: "str_nat n \<noteq> [] \<and> set (str_nat n) \<subseteq> digit_chars"
proof (induction n rule: str_nat.induct)
  case (1 n)
  show ?case
  proof (cases "n < 10")
    case True
    then show ?thesis
      by (simp add: str_nat.simps [of n] digit_char_in)
  next
    case False
    have "n mod 10 < 10" by simp
    then have "digit_char (n mod 10) \<in> digit_chars" by (rule digit_char_in)
    then show ?thesis
      using "1.IH" [OF False] False by (simp add: str_nat.simps [of n])
  qed
qed

lemma str_nat_hd: "hd (str_nat n) \<in> digit_chars"
  using str_nat_chars [of n] by (cases "str_nat n") auto

lemma py_str_int_chars: "set (py_str_int i) \<subseteq> insert CHR ''-'' digit_chars"
  using str_nat_chars by (auto simp: py_str_int_def)

lemma py_str_int_no_point: "CHR ''.'' \<notin> set (py_str_int i)"
  using py_str_int_chars [of i] by (auto simp: digit_chars_def)

lemma py_str_int_hd: "py_str_int i \<noteq> [] \<and> hd (py_str_int i) \<in> insert CHR ''-'' digit_chars"
  using str_nat_chars [of "nat i"] str_nat_hd [of "nat i"] by (simp add: py_str_int_def)

lemma py_strip_Cons:
  assumes "\<not> is_space c"
  shows "\<exists>u. py_strip (c # t) = c # u"
proof -
  have "dropWhile is_space (rev t @ [c]) = dropWhile is_space (rev t) @ [c]"
    using assms by (simp add: dropWhile_append)
  then have "py_strip (c # t) = c # rev (dropWhile is_space (rev t))"
    using assms by (simp add: py_strip_def)
  then show ?thesis by blast
qed

lemma visible_start_props: "c \<in> visible_start \<Longrightarrow> \<not> is_space c \<and> c \<noteq> CHR ''n'' \<and> c \<noteq> CHR ''N''"
  by (auto simp: visible_start_def is_space_def)

lemma not_sentinel:
  assumes "s \<noteq> []" "hd s \<in> visible_start"
  shows "py_strip s \<notin> set ['''', ''nan'', ''None'']"
proof -
  obtain c t where s: "s = c # t" using assms(1) by (cases s) auto
  with assms(2) have c: "c \<in> visible_start" by simp
  from visible_start_props [OF c] py_strip_Cons [of c t] obtain u where
    "py_strip s = c # u" "c \<noteq> CHR ''n''" "c \<noteq> CHR ''N''"
    using s by auto
  then show ?thesis by auto
qed

lemma digit_visible: "c \<in> digit_chars \<Longrightarrow> c \<in> visible_start"
  by (auto simp: digit_chars_def visible_start_def)

lemma format_digits_hd:
  assumes "ds \<noteq> []" "hd ds \<in> digit_chars"
  shows "format_digits ds decpt \<noteq> [] \<and> hd (format_digits ds decpt) \<in> digit_chars"
proof -
  obtain c t where ds: "ds = c # t" using assms(1) by (cases ds) auto
  have c: "c \<in> digit_chars" using assms(2) ds by simp
  have zero: "CHR ''0'' \<in> digit_chars" by (simp add: digit_chars_def)
  show ?thesis
  proof (cases "decpt \<le> - 4 \<or> 16 < decpt")
    case True
    then show ?thesis using c by (simp add: format_digits_def ds)
  next
    case False
    show ?thesis
    proof (cases "decpt \<le> 0")
      case True
      then show ?thesis using False zero by (simp add: format_digits_def ds)
    next
      case pos: False
      then obtain k where k: "nat decpt = Suc k"
        by (cases "nat decpt") auto
      show ?thesis using False pos c by (simp add: format_digits_def ds k)
    qed
  qed
qed

lemma float_repr_hd:
  assumes "\<not> is_nan x"
  shows "float_repr x \<noteq> [] \<and> hd (float_repr x) \<in> visible_start"
proof -
  define body where "body =
    (if is_inf x then ''inf''
     else if magnitude x = 0 then ''0.0''
     else case shortest_digits x of (ds, decpt) \<Rightarrow> format_digits ds decpt)"
  have body: "body \<noteq> [] \<and> hd body \<in> visible_start"
  proof (cases "is_inf x \<or> magnitude x = 0")
    case True
    then show ?thesis by (auto simp: body_def visible_start_def)
  next
    case False
    obtain d p where dp: "strip_zeros (repr_search x (floor_log10 (magnitude x)) 1 16) = (d, p)"
      by (cases "strip_zeros (repr_search x (floor_log10 (magnitude x)) 1 16)") auto
    have "format_digits (str_nat (nat d)) (p + int (length (str_nat (nat d)))) \<noteq> []
        \<and> hd (format_digits (str_nat (nat d)) (p + int (length (str_nat (nat d))))) \<in> digit_chars"
      using str_nat_chars [of "nat d"] str_nat_hd [of "nat d"] by (intro format_digits_hd) simp_all
    moreover have "shortest_digits x = (str_nat (nat d), p + int (length (str_nat (nat d))))"
      unfolding shortest_digits_def dp by simp
    ultimately show ?thesis
      using False by (simp add: body_def digit_visible)
  qed
  have "float_repr x = (if sign_bit x then ''-'' else '''') @ body"
    using assms by (simp add: float_repr_def body_def)
  then show ?thesis
    using body by (cases "sign_bit x") (auto simp: visible_start_def)
qed

lemma number_not_sentinel:
  assumes "is_number v" "\<forall>x. v = VFloat x \<longrightarrow> \<not> is_nan x"
  shows "py_strip (py_str v) \<notin> set ['''', ''nan'', ''None'']"
proof (cases v)
  case (VFloat x)
  then show ?thesis
    using assms(2) float_repr_hd [of x] by (intro not_sentinel) simp_all
next
  case (VInt i)
  have "hd (py_str_int i) \<in> visible_start"
    using py_str_int_hd [of i] digit_visible by (auto simp: visible_start_def)
  then show ?thesis
    using VInt py_str_int_hd [of i] by (intro not_sentinel) simp_all
next
  case (VBool b)
  then show ?thesis
    by (intro not_sentinel) (simp_all add: visible_start_def)
qed (use assms in simp_all)

lemma strtod_erange: "snd (strtod neg q) \<Longrightarrow> overflow_threshold \<le> q"
  by (auto simp: strtod_def Let_def split: if_splits prod.splits)

lemma strtod_in_range: "q < overflow_threshold \<Longrightarrow> \<exists>x. strtod neg q = (x, False)"
  using strtod_erange [of neg q] by (cases "strtod neg q") auto

lemma uint_exp_bound: "uint (w :: 11 word) < 2048"
  using uint_bounded [of w] by simp

lemma uint_frac_bound: "uint (w :: 52 word) < 2 ^ 52"
  using uint_bounded [of w] by simp

lemma pow2_int: "0 \<le> e \<Longrightarrow> pow2 e = of_int (2 ^ nat e)"
  by (simp add: pow2_def)

lemma magnitude_large_integer:
  assumes "1075 \<le> uint (exp_bits x)"
  shows "of_int \<lfloor>magnitude x\<rfloor> = magnitude x"
proof -
  define e where "e = uint (exp_bits x) - 1075"
  have e: "0 \<le> e" using assms by (simp add: e_def)
  have "magnitude x = of_int ((2 ^ 52 + uint (frac_bits x)) * 2 ^ nat e)"
    using assms by (simp add: magnitude_def e_def [symmetric] pow2_int [OF e])
  then show ?thesis
    by (simp only: floor_of_int)
qed

lemma magnitude_nonint:
  assumes "\<not> is_integer x" "is_finite x"
  shows "magnitude x < 2 ^ 52"
proof -
  define E where "E = uint (exp_bits x)"
  define F where "F = uint (frac_bits x)"
  have F: "0 \<le> F" "F < 2 ^ 52"
    using uint_frac_bound [of "frac_bits x"] by (simp_all add: F_def)
  have small: "E < 1075"
  proof (rule ccontr)
    assume "\<not> E < 1075"
    then have "of_int \<lfloor>magnitude x\<rfloor> = magnitude x"
      by (intro magnitude_large_integer) (simp add: E_def)
    then show False
      using assms by (simp add: is_integer_def)
  qed
  show ?thesis
  proof (cases "E = 0")
    case True
    have "pow2 (- 1074) \<le> pow2 0" by (rule pow2_mono) simp
    then have "of_int F * pow2 (- 1074) \<le> of_int F * 1"
      using F(1) by (intro mult_left_mono) (simp_all add: pow2_0)
    moreover have "(of_int F :: rat) < 2 ^ 52"
      using F(2) by (metis of_int_less_iff of_int_numeral of_int_power)
    ultimately show ?thesis
      using True by (simp add: magnitude_def E_def [symmetric] F_def [symmetric])
  next
    case False
    have "pow2 (E - 1075) \<le> pow2 (- 1)"
      using small by (intro pow2_mono) simp
    then have p: "pow2 (E - 1075) \<le> 1 / 2"
      by (simp add: pow2_def)
    have "(of_int (2 ^ 52 + F) :: rat) < of_int (2 ^ 53)"
      using F(2) by (simp only: of_int_less_iff) simp
    then have m: "(of_int (2 ^ 52 + F) :: rat) < 2 ^ 53" by simp
    have nn: "(0 :: rat) \<le> of_int (2 ^ 52 + F)" using F(1) by simp
    have "of_int (2 ^ 52 + F) * pow2 (E - 1075) \<le> of_int (2 ^ 52 + F) * (1 / 2)"
      using p nn by (rule mult_left_mono)
    also have "\<dots> < 2 ^ 53 * (1 / 2)"
      using m by simp
    finally show ?thesis
      using False by (simp add: magnitude_def E_def [symmetric] F_def [symmetric])
  qed
qed

lemma py_round2_total:
  assumes "\<not> is_integer x"
  shows "\<exists>y. py_round2 x = Inr y"
proof (cases "is_finite x")
  case False
  then show ?thesis by (simp add: py_round2_def)
next
  case True
  define m where "m = magnitude x"
  define r where "r = (of_int (round_half_even (m * 100)) :: rat) / 100"
  have m: "m < 2 ^ 52" using magnitude_nonint [OF assms True] by (simp add: m_def)
  have "round_half_even (m * 100) \<le> \<lceil>m * 100\<rceil>"
    using round_half_even_bounds [of "m * 100"] by simp
  then have "(of_int (round_half_even (m * 100)) :: rat) \<le> of_int \<lceil>m * 100\<rceil>"
    by (simp only: of_int_le_iff)
  also have "\<dots> < m * 100 + 1"
    using ceiling_correct [of "m * 100"] by linarith
  finally have "r < m + 1" by (simp add: r_def)
  also have "\<dots> < 2 ^ 52 + 1" using m by simp
  also have "\<dots> < overflow_threshold" by (simp add: overflow_threshold_def)
  finally obtain y where "strtod (sign_bit x) r = (y, False)"
    using strtod_in_range by blast
  then show ?thesis
    using True by (simp add: py_round2_def m_def r_def)
qed

lemma py_int_of_float_integer:
  assumes "is_integer x"
  shows "py_int_of_float x = Inr (if sign_bit x then - \<lfloor>magnitude x\<rfloor> else \<lfloor>magnitude x\<rfloor>)"
  using assms by (simp add: py_int_of_float_def is_integer_def is_finite_def is_nan_def is_inf_def)

lemma py_float_of_int_small:
  assumes "\<bar>i\<bar> < 2 ^ 63"
  shows "\<exists>x. py_float_of_int i = Inr x"
proof -
  have "(of_int \<bar>i\<bar> :: rat) < of_int (2 ^ 63)"
    using assms by (simp only: of_int_less_iff)
  also have "\<dots> < overflow_threshold" by (simp add: overflow_threshold_def)
  finally obtain x where "strtod (i < 0) \<bar>of_int i\<bar> = (x, False)"
    using strtod_in_range [of "\<bar>of_int i\<bar>" "i < 0"] by auto
  then show ?thesis by (simp add: py_float_of_int_def)
qed

lemma floor_rat_numeral [simp]: "\<lfloor>(numeral a :: rat) / numeral b\<rfloor> = numeral a div numeral b"
  by (metis floor_divide_of_int_eq of_int_numeral)

lemma frac_part:
  fixes x y :: int
  assumes "0 < y"
  shows "(of_int x :: rat) / of_int y - of_int (x div y) = of_int (x mod y) / of_int y"
proof -
  have "(of_int x :: rat) = of_int (x div y) * of_int y + of_int (x mod y)"
    by (metis of_int_add of_int_mult div_mult_mod_eq)
  then show ?thesis
    using assms by (simp add: field_simps)
qed

lemma half_lt:
  fixes r y :: int
  assumes "0 < y"
  shows "(of_int r :: rat) / of_int y < 1 / 2 \<longleftrightarrow> 2 * r < y"
proof -
  have "(of_int r :: rat) / of_int y < 1 / 2 \<longleftrightarrow> (of_int (2 * r) :: rat) < of_int y"
    using assms by (simp add: field_simps)
  then show ?thesis by (simp only: of_int_less_iff)
qed

lemma half_gt:
  fixes r y :: int
  assumes "0 < y"
  shows "(1 :: rat) / 2 < of_int r / of_int y \<longleftrightarrow> y < 2 * r"
proof -
  have "(1 :: rat) / 2 < of_int r / of_int y \<longleftrightarrow> (of_int y :: rat) < of_int (2 * r)"
    using assms by (simp add: field_simps)
  then show ?thesis by (simp only: of_int_less_iff)
qed

lemma round_half_even_of_int_div:
  fixes x y :: int
  assumes "0 < y"
  shows "round_half_even (of_int x / of_int y) =
     (if 2 * (x mod y) < y then x div y else if y < 2 * (x mod y) then x div y + 1
      else if even (x div y) then x div y else x div y + 1)"
  unfolding round_half_even_def Let_def floor_divide_of_int_eq frac_part [OF assms]
    half_lt [OF assms] half_gt [OF assms]
  by simp

lemma round_half_even_fraction:
  "round_half_even (numeral a / numeral b) =
     (if 2 * (numeral a mod numeral b :: int) < numeral b then numeral a div numeral b
      else if numeral b < 2 * (numeral a mod numeral b :: int) then numeral a div numeral b + 1
      else if even (numeral a div numeral b :: int) then numeral a div numeral b
      else numeral a div numeral b + 1)"
  using round_half_even_of_int_div [of "numeral b" "numeral a"] by simp

lemma round_half_even_numeral [simp]: "round_half_even (numeral a) = numeral a"
  by (simp add: round_half_even_def)

lemma repr_search_numeral:
  "repr_search x e k (numeral n) = repr_search x e k (Suc (pred_numeral n))"
  by (simp only: numeral_eq_Suc)

lemmas strtod_eval = strtod_def overflow_threshold_def floor_log2_def log2_up.simps
  log2_down.simps pow2_def round_half_even_fraction Let_def

lemmas repr_eval = float_repr_def is_nan_def is_inf_def magnitude_def shortest_digits_def
  floor_log10_def log10_up.simps log10_down.simps repr_search_numeral round_trips_def pow10_def
  strip_zeros.simps str_nat.simps digit_char_def format_digits_def exponent_text_def

lemma lit_4: "float_lit 4 = PyFloat False 1025 0"
  by (simp add: float_lit_def strtod_eval)

lemma lit_45: "float_lit (45 / 10) = PyFloat False 1025 562949953421312"
  by (simp add: float_lit_def strtod_eval)

lemma lit_4567: "float_lit (4567 / 1000) = PyFloat False 1025 638385247179768"
  by (simp add: float_lit_def strtod_eval)

lemma round_4567: "py_round2 (PyFloat False 1025 638385247179768) = Inr (PyFloat False 1025 641762946900296)"
  by (simp add: py_round2_def is_finite_def magnitude_def strtod_eval)

lemma round_45: "py_round2 (PyFloat False 1025 562949953421312) = Inr (PyFloat False 1025 562949953421312)"
  by (simp add: py_round2_def is_finite_def magnitude_def strtod_eval)

lemma repr_search_next:
  assumes "\<not> round_trips x \<lfloor>magnitude x / pow10 (e10 - int k + 1)\<rfloor> (e10 - int k + 1)"
    and "\<not> round_trips x (\<lfloor>magnitude x / pow10 (e10 - int k + 1)\<rfloor> + 1) (e10 - int k + 1)"
  shows "repr_search x e10 k (Suc fuel) = repr_search x e10 (Suc k) fuel"
  using assms by (simp add: Let_def)

lemma repr_search_lo:
  assumes "round_trips x \<lfloor>magnitude x / pow10 (e10 - int k + 1)\<rfloor> (e10 - int k + 1)"
    and "\<not> round_trips x (\<lfloor>magnitude x / pow10 (e10 - int k + 1)\<rfloor> + 1) (e10 - int k + 1)"
  shows "repr_search x e10 k (Suc fuel) = (\<lfloor>magnitude x / pow10 (e10 - int k + 1)\<rfloor>, e10 - int k + 1)"
  using assms by (simp add: Let_def)

lemma repr_search_hi:
  assumes "\<not> round_trips x \<lfloor>magnitude x / pow10 (e10 - int k + 1)\<rfloor> (e10 - int k + 1)"
    and "round_trips x (\<lfloor>magnitude x / pow10 (e10 - int k + 1)\<rfloor> + 1) (e10 - int k + 1)"
  shows "repr_search x e10 k (Suc fuel) = (\<lfloor>magnitude x / pow10 (e10 - int k + 1)\<rfloor> + 1, e10 - int k + 1)"
  using assms by (simp add: Let_def)

lemma mag_45: "magnitude (PyFloat False 1025 562949953421312) = 9 / 2"
  by (simp add: magnitude_def pow2_def)

lemma log_45: "floor_log10 (9 / 2) = 0"
  by (simp add: floor_log10_def log10_up.simps)

lemma rt_45:
  "\<not> round_trips (PyFloat False 1025 562949953421312) 4 0"
  "\<not> round_trips (PyFloat False 1025 562949953421312) 5 0"
  "round_trips (PyFloat False 1025 562949953421312) 45 (- 1)"
  "\<not> round_trips (PyFloat False 1025 562949953421312) 46 (- 1)"
  by (simp_all add: round_trips_def pow10_def strtod_eval)

lemma search_45: "repr_search (PyFloat False 1025 562949953421312) 0 1 16 = (45, - 1)"
proof -
  let ?x = "PyFloat False 1025 562949953421312"
  have "repr_search ?x 0 1 (Suc 15) = repr_search ?x 0 (Suc 1) 15"
    by (rule repr_search_next) (simp_all add: mag_45 pow10_def rt_45)
  also have "\<dots> = repr_search ?x 0 2 (Suc 14)"
    by (simp only: numeral_eq_Suc pred_numeral_simps One_nat_def) simp
  also have "\<dots> = (\<lfloor>magnitude ?x / pow10 (0 - int 2 + 1)\<rfloor>, 0 - int 2 + 1)"
    by (rule repr_search_lo) (simp_all add: mag_45 pow10_def rt_45)
  also have "\<dots> = (45, - 1)"
    by (simp add: mag_45 pow10_def)
  finally show ?thesis by simp
qed

lemma strip_45: "strip_zeros (45, - 1) = (45, - 1)"
  by (simp add: strip_zeros.simps)

lemma str_45: "str_nat 45 = ''45''"
  by (simp add: str_nat.simps digit_char_def)

lemma digits_45: "shortest_digits (PyFloat False 1025 562949953421312) = (''45'', 1)"
  unfolding shortest_digits_def mag_45 log_45 search_45 strip_45
  by (simp add: str_45)

lemma repr_45: "float_repr (PyFloat False 1025 562949953421312) = ''4.5''"
  by (simp add: float_repr_def is_nan_def is_inf_def mag_45 digits_45 format_digits_def)

lemma mag_457: "magnitude (PyFloat False 1025 641762946900296) = 643170321783849 / 140737488355328"
  by (simp add: magnitude_def pow2_def)

lemma log_457: "floor_log10 (643170321783849 / 140737488355328) = 0"
  by (simp add: floor_log10_def log10_up.simps)

lemma rt_457:
  "\<not> round_trips (PyFloat False 1025 641762946900296) 4 0"
  "\<not> round_trips (PyFloat False 1025 641762946900296) 5 0"
  "\<not> round_trips (PyFloat False 1025 641762946900296) 45 (- 1)"
  "\<not> round_trips (PyFloat False 1025 641762946900296) 46 (- 1)"
  "round_trips (PyFloat False 1025 641762946900296) 457 (- 2)"
  "\<not> round_trips (PyFloat False 1025 641762946900296) 458 (- 2)"
  by (simp_all add: round_trips_def pow10_def strtod_eval)

lemma search_457: "repr_search (PyFloat False 1025 641762946900296) 0 1 16 = (457, - 2)"
proof -
  let ?x = "PyFloat False 1025 641762946900296"
  have "repr_search ?x 0 1 (Suc 15) = repr_search ?x 0 (Suc 1) 15"
    by (rule repr_search_next) (simp_all add: mag_457 pow10_def rt_457)
  also have "\<dots> = repr_search ?x 0 2 (Suc 14)"
    by (simp only: numeral_eq_Suc pred_numeral_simps One_nat_def) simp
  also have "\<dots> = repr_search ?x 0 (Suc 2) 14"
    by (rule repr_search_next) (simp_all add: mag_457 pow10_def rt_457)
  also have "\<dots> = repr_search ?x 0 3 (Suc 13)"
    by (simp only: numeral_eq_Suc pred_numeral_simps One_nat_def) simp
  also have "\<dots> = (\<lfloor>magnitude ?x / pow10 (0 - int 3 + 1)\<rfloor>, 0 - int 3 + 1)"
    by (rule repr_search_lo) (simp_all add: mag_457 pow10_def rt_457)
  also have "\<dots> = (457, - 2)"
    by (simp add: mag_457 pow10_def)
  finally show ?thesis by simp
qed

lemma strip_457: "strip_zeros (457, - 2) = (457, - 2)"
  by (simp add: strip_zeros.simps)

lemma str_457: "str_nat 457 = ''457''"
  by (simp add: str_nat.simps digit_char_def)

lemma digits_457: "shortest_digits (PyFloat False 1025 641762946900296) = (''457'', 1)"
  unfolding shortest_digits_def mag_457 log_457 search_457 strip_457
  by (simp add: str_457)

lemma repr_457: "float_repr (PyFloat False 1025 641762946900296) = ''4.57''"
  by (simp add: float_repr_def is_nan_def is_inf_def mag_457 digits_457 format_digits_def)

lemma is_integer_not_nan: "is_integer x \<Longrightarrow> \<not> is_nan x"
  by (simp add: is_integer_def is_finite_def is_nan_def)

lemma clean_value_integral:
  assumes "is_number v" "is_integral v" "com_range v"
  shows "clean_value v = Inr (py_str_int (integral_value v))"
proof -
  have nan: "\<forall>x. v = VFloat x \<longrightarrow> \<not> is_nan x"
    using assms(2) is_integer_not_nan by auto
  have guard: "v \<noteq> VNone \<and> py_strip (py_str v) \<notin> set ['''', ''nan'', ''None'']"
    using number_not_sentinel [OF assms(1) nan] assms(1) by auto
  have "clean_number v = Inr (py_str_int (integral_value v))"
  proof (cases v)
    case (VFloat x)
    then show ?thesis
      using assms(2) by (simp add: clean_number_def py_int_of_float_integer)
  next
    case (VInt i)
    then obtain x where "py_float_of_int i = Inr x"
      using assms(3) py_float_of_int_small [of i] by auto
    then show ?thesis
      using VInt by (simp add: clean_number_def)
  next
    case (VBool b)
    have "\<bar>if b then 1 else 0 :: int\<bar> < 2 ^ 63" by simp
    from py_float_of_int_small [OF this]
    obtain x where "py_float_of_int (if b then 1 else 0) = Inr x" by blast
    then show ?thesis
      using VBool by (simp add: clean_number_def)
  qed (use assms(1) in simp_all)
  then show ?thesis
    using guard assms(1) by (simp add: clean_value_def)
qed

lemma clean_value_fraction:
  assumes "\<not> is_integer x" "\<not> is_nan x"
  shows "\<exists>y. py_round2 x = Inr y \<and> clean_value (VFloat x) = Inr (float_repr y)"
proof -
  obtain y where y: "py_round2 x = Inr y"
    using py_round2_total [OF assms(1)] by blast
  have "py_strip (py_str (VFloat x)) \<notin> set ['''', ''nan'', ''None'']"
    using assms(2) by (intro number_not_sentinel) simp_all
  then have "clean_value (VFloat x) = Inr (float_repr y)"
    using assms(1) y by (simp add: clean_value_def clean_number_def)
  with y show ?thesis by blast
qed

lemma clean_value_total:
  assumes "com_range v"
  shows "\<exists>s. clean_value v = Inr s"
proof (cases "v \<noteq> VNone \<and> py_strip (py_str v) \<notin> set ['''', ''nan'', ''None''] \<and> is_number v")
  case False
  then show ?thesis by (auto simp: clean_value_def)
next
  case True
  then have cv: "clean_value v = clean_number v"
    by (simp add: clean_value_def)
  show ?thesis
  proof (cases v)
    case (VFloat x)
    show ?thesis
    proof (cases "is_integer x")
      case True
      then show ?thesis
        using cv [unfolded VFloat] VFloat by (simp add: clean_number_def py_int_of_float_integer)
    next
      case False
      then obtain y where "py_round2 x = Inr y"
        using py_round2_total by blast
      then show ?thesis
        using cv [unfolded VFloat] VFloat False by (simp add: clean_number_def)
    qed
  next
    case (VInt i)
    then obtain x where "py_float_of_int i = Inr x"
      using assms py_float_of_int_small [of i] by auto
    then show ?thesis
      using cv [unfolded VInt] VInt by (simp add: clean_number_def)
  next
    case (VBool b)
    have "\<bar>if b then 1 else 0 :: int\<bar> < 2 ^ 63" by simp
    from py_float_of_int_small [OF this]
    obtain x where "py_float_of_int (if b then 1 else 0) = Inr x" by blast
    then show ?thesis
      using cv [unfolded VBool] VBool by (simp add: clean_number_def)
  qed (use True in simp_all)
qed

lemma strip_examples:
  "py_strip ''nan'' = ''nan''" "py_strip '' abc '' = ''abc''" "py_strip '' nan '' = ''nan''"
  "py_strip ''2024-01-01 '' = ''2024-01-01''"
  by (simp_all add: py_strip_def is_space_def)

lemma clean_4: "clean_value (VFloat (float_lit 4)) = Inr ''4''"
proof -
  let ?x = "PyFloat False 1025 0"
  have m: "magnitude ?x = 4" by (simp add: magnitude_def pow2_def)
  have int: "is_integer ?x" by (simp add: is_integer_def is_finite_def m)
  have "clean_value (VFloat ?x) = Inr (py_str_int (integral_value (VFloat ?x)))"
    using int by (intro clean_value_integral) simp_all
  also have "\<dots> = Inr ''4''"
    by (simp add: m py_str_int_def str_nat.simps digit_char_def)
  finally show ?thesis by (simp only: lit_4)
qed

lemma not_integer_4567: "\<not> is_integer (PyFloat False 1025 638385247179768)"
  by (simp add: is_integer_def magnitude_def pow2_def)

lemma not_nan_4567: "\<not> is_nan (PyFloat False 1025 638385247179768)"
  by (simp add: is_nan_def)

lemma clean_4567: "clean_value (VFloat (float_lit (4567 / 1000))) = Inr ''4.57''"
proof -
  from clean_value_fraction [OF not_integer_4567 not_nan_4567]
  have "clean_value (VFloat (PyFloat False 1025 638385247179768)) = Inr ''4.57''"
    by (simp add: round_4567 repr_457)
  then show ?thesis by (simp only: lit_4567)
qed

lemma not_integer_45: "\<not> is_integer (PyFloat False 1025 562949953421312)"
  by (simp add: is_integer_def magnitude_def pow2_def)

lemma clean_45: "clean_value (VFloat (float_lit (45 / 10))) = Inr ''4.5''"
proof -
  have "\<not> is_nan (PyFloat False 1025 562949953421312)" by (simp add: is_nan_def)
  from clean_value_fraction [OF not_integer_45 this]
  have "clean_value (VFloat (PyFloat False 1025 562949953421312)) = Inr ''4.5''"
    by (simp add: round_45 repr_45)
  then show ?thesis by (simp only: lit_45)
qed

text \<open>
  Claim C2. The value formatter never raises on a value the COM layer delivers. It returns
  the empty string for \<^verbatim>\<open>None\<close> and for every value whose trimmed \<^verbatim>\<open>str\<close> is empty,
  \<^verbatim>\<open>nan\<close> or \<^verbatim>\<open>None\<close>; the integer text without a decimal point for a numeric value
  that is integral; \<^verbatim>\<open>repr\<close> of the value rounded to two decimals for any other float;
  and the trimmed \<^verbatim>\<open>str\<close> for every other value. In particular it maps \<^verbatim>\<open>"nan"\<close> to the
  empty string, 4.0 to \<^verbatim>\<open>4\<close>, 4.5 to \<^verbatim>\<open>4.5\<close>, 4.567 to \<^verbatim>\<open>4.57\<close> and \<^verbatim>\<open>" abc "\<close> to
  \<^verbatim>\<open>abc\<close>.
\<close>

theorem clean_value_spec:
  "clean_value VNone = Inr ''''
   \<and> (py_strip (py_str v) \<in> set ['''', ''nan'', ''None''] \<longrightarrow> clean_value v = Inr '''')
   \<and> (is_number v \<and> is_integral v \<and> com_range v \<longrightarrow>
        clean_value v = Inr (py_str_int (integral_value v))
        \<and> CHR ''.'' \<notin> set (py_str_int (integral_value v)))
   \<and> (\<not> is_integer x \<and> \<not> is_nan x \<longrightarrow>
        (\<exists>y. py_round2 x = Inr y \<and> clean_value (VFloat x) = Inr (float_repr y)))
   \<and> (\<not> is_number v \<and> v \<noteq> VNone \<and> py_strip (py_str v) \<notin> set ['''', ''nan'', ''None''] \<longrightarrow>
        clean_value v = Inr (py_strip (py_str v)))
   \<and> (com_range v \<longrightarrow> (\<exists>s. clean_value v = Inr s))
   \<and> clean_value (VStr ''nan'') = Inr ''''
   \<and> clean_value (VFloat (float_lit 4)) = Inr ''4''
   \<and> clean_value (VFloat (float_lit (45 / 10))) = Inr ''4.5''
   \<and> clean_value (VFloat (float_lit (4567 / 1000))) = Inr ''4.57''
   \<and> clean_value (VStr '' abc '') = Inr ''abc''"
proof -
  have none: "clean_value VNone = Inr ''''"
    by (simp add: clean_value_def)
  have sentinel: "clean_value v = Inr ''''" if "py_strip (py_str v) \<in> set ['''', ''nan'', ''None'']"
    using that by (simp add: clean_value_def)
  have other: "clean_value v = Inr (py_strip (py_str v))"
    if "\<not> is_number v \<and> v \<noteq> VNone \<and> py_strip (py_str v) \<notin> set ['''', ''nan'', ''None'']"
    using that by (simp add: clean_value_def)
  have nan: "clean_value (VStr ''nan'') = Inr ''''"
    by (simp add: clean_value_def strip_examples)
  have abc: "clean_value (VStr '' abc '') = Inr ''abc''"
    by (simp add: clean_value_def strip_examples)
  show ?thesis
    using none sentinel clean_value_integral [of v] py_str_int_no_point [of "integral_value v"]
      clean_value_fraction [of x] other clean_value_total [of v] nan clean_4 clean_45 clean_4567 abc
    by blast
qed

theorem clean_value_spec_witness:
  "clean_value (VStr '' nan '') = Inr ''''
   \<and> clean_value (VInt 7) = Inr ''7''
   \<and> (\<exists>y. py_round2 (PyFloat False 1025 638385247179768) = Inr y
          \<and> clean_value (VFloat (PyFloat False 1025 638385247179768)) = Inr (float_repr y))
   \<and> clean_value (VObj ''2024-01-01 '') = Inr ''2024-01-01''
   \<and> (\<exists>s. clean_value (VBool True) = Inr s)"
proof (intro conjI)
  let ?x = "PyFloat False 1025 638385247179768"
  show "clean_value (VStr '' nan '') = Inr ''''"
    using clean_value_spec [of "VStr '' nan ''" ?x] by (simp add: strip_examples)
  show "clean_value (VInt 7) = Inr ''7''"
    using clean_value_spec [of "VInt 7" ?x]
    by (simp add: py_str_int_def str_nat.simps digit_char_def)
  show "\<exists>y. py_round2 ?x = Inr y \<and> clean_value (VFloat ?x) = Inr (float_repr y)"
    using clean_value_spec [of VNone ?x] not_integer_4567 not_nan_4567 by blast
  show "clean_value (VObj ''2024-01-01 '') = Inr ''2024-01-01''"
    using clean_value_spec [of "VObj ''2024-01-01 ''" ?x] by (simp add: strip_examples)
  show "\<exists>s. clean_value (VBool True) = Inr s"
    using clean_value_spec [of "VBool True" ?x] by simp
qed

section \<open>Properties of the text write\<close>

text \<open>
  Claim C9. The text write replaces the text of a shape with the formatted text when the
  orientation of its text frame is neither 3 nor 4 (and the shape accepts the
  assignment); a shape with orientation 3 or 4 keeps its text; and when the body of the
  \<^verbatim>\<open>try\<close> raises (no text frame, or the assignment is rejected) the exception is
  swallowed and the shape is left as it was. These are the only ways the body raises.
\<close>

theorem write_text_guard:
  "(orientation shp = Some code \<and> code \<noteq> 3 \<and> code \<noteq> 4 \<and> \<not> rejects shp AText \<longrightarrow>
      write_text shp val_text = shp\<lparr>shp_text := val_text\<rparr>)
   \<and> (orientation shp = Some code \<and> (code = 3 \<or> code = 4) \<longrightarrow> write_text shp val_text = shp)
   \<and> (fst (text_write_body shp val_text) = Some e \<longrightarrow> write_text shp val_text = shp)
   \<and> (fst (text_write_body shp val_text) = Some e \<longleftrightarrow>
        (orientation shp = None \<and> e = ComError ''no text frame'')
        \<or> (\<exists>c. orientation shp = Some c \<and> c \<noteq> 3 \<and> c \<noteq> 4 \<and> rejects shp AText
               \<and> e = ComError ''assignment rejected''))"
  by (auto simp: write_text_def text_write_body_def com_assign_def split: option.splits)

theorem write_text_guard_witness:
  "write_text \<lparr>orientation = Some 1, shp_text = ''old'', shp_font_size = 12, shp_left = 0,
        shp_top = 0, shp_width = 10, shp_height = 10, rejects = (\<lambda>a. False)\<rparr> ''7''
     = \<lparr>orientation = Some 1, shp_text = ''7'', shp_font_size = 12, shp_left = 0,
        shp_top = 0, shp_width = 10, shp_height = 10, rejects = (\<lambda>a. False)\<rparr>
   \<and> write_text \<lparr>orientation = Some 3, shp_text = ''old'', shp_font_size = 12, shp_left = 0,
        shp_top = 0, shp_width = 10, shp_height = 10, rejects = (\<lambda>a. False)\<rparr> ''7''
     = \<lparr>orientation = Some 3, shp_text = ''old'', shp_font_size = 12, shp_left = 0,
        shp_top = 0, shp_width = 10, shp_height = 10, rejects = (\<lambda>a. False)\<rparr>
   \<and> write_text \<lparr>orientation = None, shp_text = ''old'', shp_font_size = 12, shp_left = 0,
        shp_top = 0, shp_width = 10, shp_height = 10, rejects = (\<lambda>a. False)\<rparr> ''7''
     = \<lparr>orientation = None, shp_text = ''old'', shp_font_size = 12, shp_left = 0,
        shp_top = 0, shp_width = 10, shp_height = 10, rejects = (\<lambda>a. False)\<rparr>"
proof (intro conjI)
  let ?h = "\<lparr>orientation = Some 1, shp_text = ''old'', shp_font_size = 12, shp_left = 0,
        shp_top = 0, shp_width = 10, shp_height = 10, rejects = (\<lambda>a. False)\<rparr>"
  let ?v = "\<lparr>orientation = Some 3, shp_text = ''old'', shp_font_size = 12, shp_left = 0,
        shp_top = 0, shp_width = 10, shp_height = 10, rejects = (\<lambda>a. False)\<rparr>"
  let ?n = "\<lparr>orientation = None, shp_text = ''old'', shp_font_size = 12, shp_left = 0,
        shp_top = 0, shp_width = 10, shp_height = 10, rejects = (\<lambda>a. False)\<rparr>"
  show "write_text ?h ''7'' = \<lparr>orientation = Some 1, shp_text = ''7'', shp_font_size = 12,
        shp_left = 0, shp_top = 0, shp_width = 10, shp_height = 10, rejects = (\<lambda>a. False)\<rparr>"
    using write_text_guard [of ?h 1 "''7''"] by simp
  show "write_text ?v ''7'' = ?v"
    using write_text_guard [of ?v 3 "''7''"] by simp
  have "fst (text_write_body ?n ''7'') = Some (ComError ''no text frame'')"
    using write_text_guard [of ?n 0 "''7''" "ComError ''no text frame''"] by simp
  then show "write_text ?n ''7'' = ?n"
    using write_text_guard [of ?n 0 "''7''" "ComError ''no text frame''"] by blast
qed

end
